theory Spec2Isabelle
  imports Complex_Main
begin

section \<open>Numbers and the environment\<close>

text \<open>
  The program is TypeScript; every quantity below is a JavaScript \<open>number\<close>.  The
  specification states its contracts over the real numbers ("all real numbers"), and the
  development follows it: a \<open>number\<close> is a \<^typ>\<open>real\<close>, \<open>Math.min\<close>, \<open>Math.max\<close> and
  \<open>Math.abs\<close> are \<^const>\<open>min\<close>, \<^const>\<open>max\<close> and \<^const>\<open>abs\<close>, and \<open>Math.pow\<close> with a positive
  base is \<^const>\<open>powr\<close>.  Rounding of IEEE doubles and the infinities are outside the
  model; the one \<open>NaN\<close> the code can compute from integers (a remainder by zero) is
  modelled where it arises.

  What a handler reads from its environment is an argument of its model: the value of
  \<open>performance.now()\<close> (milliseconds), the value of \<open>Math.random()\<close>, the frame's elapsed
  time, and whether the platform lets \<open>play()\<close> start playback.  A React ref is a field of
  a state record, and a handler maps the state to the state it leaves behind.
\<close>

section \<open>The damped-approach step (GlobalClickSound.tsx)\<close>

text \<open>
  \<^verbatim>\<open>
  function approach(current: number, target: number, maxDelta: number) {
    if (current < target) return Math.min(target, current + maxDelta);
    if (current > target) return Math.max(target, current - maxDelta);
    return current;
  }
  \<close>
\<close>

definition approach :: "real \<Rightarrow> real \<Rightarrow> real \<Rightarrow> real" where
  "approach current target maxDelta =
     (if current < target then min target (current + maxDelta)
      else if current > target then max target (current - maxDelta)
      else current)"

text \<open>
  Repeated application with a fixed target and a fixed step size: element \<open>n\<close> of the
  sequence is the value after \<open>n\<close> steps from \<open>current\<close>.
\<close>

primrec approach_seq :: "real \<Rightarrow> real \<Rightarrow> real \<Rightarrow> nat \<Rightarrow> real" where
  "approach_seq current target maxDelta 0 = current"
| "approach_seq current target maxDelta (Suc n) =
     approach (approach_seq current target maxDelta n) target maxDelta"

section \<open>Audio elements and voice pools (GlobalClickSound.tsx)\<close>

text \<open>
  An \<open>HTMLAudioElement\<close>, reduced to the attributes the component reads or writes.
  \<open>playCalls\<close> is a ghost counter of the invocations of \<open>play()\<close> on the element; it is
  what "a playback invocation" refers to.  The \<open>preload\<close> hint is written once and never
  read, and is left out.
\<close>

record audio =
  src :: string
  volume :: real
  playbackRate :: real
  currentTime :: real
  paused :: bool
  loop :: bool
  playCalls :: nat

text \<open>\<open>new Audio(url)\<close>: a paused element at position 0 with the default volume and rate.\<close>

definition new_Audio :: "string \<Rightarrow> audio" where
  "new_Audio url =
     \<lparr>src = url, volume = 1, playbackRate = 1, currentTime = 0, paused = True,
      loop = False, playCalls = 0\<rparr>"

text \<open>
  \<open>audio.play()\<close>: the invocation is counted; the element leaves the paused state when
  the platform allows playback, and stays as it was when the platform rejects it (the
  rejection is asynchronous and the code ignores it).
\<close>

definition audio_play :: "bool \<Rightarrow> audio \<Rightarrow> audio" where
  "audio_play allowed a =
     a\<lparr>paused := (if allowed then False else paused a), playCalls := playCalls a + 1\<rparr>"

definition audio_pause :: "audio \<Rightarrow> audio" where
  "audio_pause a = a\<lparr>paused := True\<rparr>"

text \<open>
  The pool's cursor is a JavaScript number that holds an array index, or \<open>NaN\<close> once a
  remainder by the length of an empty \<open>clips\<close> array has been taken.
\<close>

datatype cursor = Index nat | NaN

record AudioPool =
  nextIndex :: cursor
  clips :: "audio list"

text \<open>
  \<^verbatim>\<open>
  function makeAudioPool(url: string, poolSize: number, volume: number): AudioPool {
    const clips = Array.from({ length: poolSize }, () => {
      const audio = new Audio(url);
      audio.preload = "auto";
      audio.volume = volume;
      return audio;
    });
    return { nextIndex: 0, clips };
  }
  \<close>
\<close>

definition makeAudioPool :: "string \<Rightarrow> nat \<Rightarrow> real \<Rightarrow> AudioPool" where
  "makeAudioPool url poolSize vol =
     \<lparr>nextIndex = Index 0, clips = replicate poolSize ((new_Audio url)\<lparr>volume := vol\<rparr>)\<rparr>"

text \<open>
  Playing from a pool, the last lines of \<open>onPointerDown\<close>:
  \<^verbatim>\<open>
      const audio = pool.clips[pool.nextIndex];
      pool.nextIndex = (pool.nextIndex + 1) % pool.clips.length;
      try {
        audio.currentTime = 0;
        void audio.play();
      } catch {
        // ignore autoplay/interaction errors
      }
  \<close>
  An index outside the array reads \<open>undefined\<close>; the assignment to its \<open>currentTime\<close>
  then throws inside the \<open>try\<close>, and nothing is played.
\<close>

definition playNext :: "bool \<Rightarrow> AudioPool \<Rightarrow> AudioPool" where
  "playNext allowed pool =
     (case nextIndex pool of
        NaN \<Rightarrow> pool
      | Index i \<Rightarrow>
          let next = (if length (clips pool) = 0 then NaN
                      else Index ((i + 1) mod length (clips pool)))
          in if i < length (clips pool)
             then pool\<lparr>nextIndex := next,
                       clips := (clips pool)[i := audio_play allowed ((clips pool ! i)\<lparr>currentTime := 0\<rparr>)]\<rparr>
             else pool\<lparr>nextIndex := next\<rparr>)"

text \<open>The plays of a pool, one after the other; the list gives the platform's answers.\<close>

fun playMany :: "bool list \<Rightarrow> AudioPool \<Rightarrow> AudioPool" where
  "playMany [] pool = pool"
| "playMany (allowed # rest) pool = playMany rest (playNext allowed pool)"

definition poolPlays :: "AudioPool \<Rightarrow> nat" where
  "poolPlays pool = sum_list (map playCalls (clips pool))"

section \<open>The component's state (GlobalClickSound.tsx)\<close>

text \<open>
  The refs of \<open>GlobalClickSound\<close> and the closure variable \<open>lastRafAt\<close> of its effect.
\<close>

record sound_state =
  clickPools :: "AudioPool list option"
  scrollAudio :: "audio option"
  lastPointerDownAt :: real
  lastWheelAt :: real
  wheelIntensity :: real
  scrollTargetRate :: real
  scrollCurrentRate :: real
  scrollTargetVol :: real
  scrollCurrentVol :: real
  lastRafAt :: real

definition clickUrls :: "string list" where
  "clickUrls = [''/sounds/clickDown.mp3'', ''/sounds/clickUp.mp3'']"

definition scrollUrl :: string where
  "scrollUrl = ''/sounds/scroll.mp3''"

text \<open>
  The state when the effect has run, at time \<open>now\<close>: the refs hold their initial values
  (\<open>useRef(0)\<close>, \<open>useRef(1)\<close>), the two click pools of four clips and the looping scroll
  clip exist, and \<open>lastRafAt\<close> is the time of the effect.
\<close>

definition mount :: "real \<Rightarrow> sound_state" where
  "mount now =
     \<lparr>clickPools = Some (map (\<lambda>url. makeAudioPool url 4 0.35) clickUrls),
      scrollAudio = Some ((new_Audio scrollUrl)\<lparr>loop := True, volume := 0, playbackRate := 1\<rparr>),
      lastPointerDownAt = 0,
      lastWheelAt = 0,
      wheelIntensity = 0,
      scrollTargetRate = 1,
      scrollCurrentRate = 1,
      scrollTargetVol = 0,
      scrollCurrentVol = 0,
      lastRafAt = now\<rparr>"

text \<open>
  \<^verbatim>\<open>
    const onPointerDown = (event: PointerEvent) => {
      if (typeof (event as unknown as MouseEvent).button === "number") {
        const button = (event as unknown as MouseEvent).button;
        if (button !== 0) return;
      }
      const now = performance.now();
      if (now - lastPointerDownAtRef.current < 25) return;
      lastPointerDownAtRef.current = now;
      const pools = clickPoolsRef.current;
      if (!pools || pools.length === 0) return;
      const pool = pools[Math.floor(Math.random() * pools.length)];
      ... (playNext)
    };
  \<close>
  \<open>button\<close> is \<open>None\<close> for an event whose \<open>button\<close> is not a number.  \<open>rnd\<close> is the value
  of \<open>Math.random()\<close>; outside \<open>[0, 1)\<close>, where the index misses the array, \<open>pool\<close> is
  \<open>undefined\<close> and the handler ends with a \<open>TypeError\<close> after the timestamp was stored.
\<close>

definition onPointerDown :: "int option \<Rightarrow> real \<Rightarrow> real \<Rightarrow> bool \<Rightarrow> sound_state \<Rightarrow> sound_state" where
  "onPointerDown button now rnd allowed s =
     (if (case button of Some b \<Rightarrow> b \<noteq> 0 | None \<Rightarrow> False) then s
      else if now - lastPointerDownAt s < 25 then s
      else
        let s1 = s\<lparr>lastPointerDownAt := now\<rparr> in
        case clickPools s1 of
          None \<Rightarrow> s1
        | Some pools \<Rightarrow>
            if length pools = 0 then s1
            else
              let k = \<lfloor>rnd * real (length pools)\<rfloor> in
              if 0 \<le> k \<and> k < int (length pools)
              then s1\<lparr>clickPools := Some (pools[nat k := playNext allowed (pools ! nat k)])\<rparr>
              else s1)"

text \<open>
  \<^verbatim>\<open>
    const onWheel = (event: WheelEvent) => {
      const scrollAudio = scrollAudioRef.current;
      if (!scrollAudio) return;
      const now = performance.now();
      const dtWheel = Math.min(0.05, Math.max(0.001, (now - lastWheelAtRef.current) / 1000));
      lastWheelAtRef.current = now;
      const raw = Math.abs(event.deltaY);
      const clamped = Math.min(220, raw);
      wheelIntensityRef.current = approach(wheelIntensityRef.current, clamped, 900 * dtWheel);
      const normalized = Math.min(1, wheelIntensityRef.current / 120);
      const targetRate = 1 + normalized * 0.55;
      const targetVol = normalized * 0.32;
      scrollTargetRateRef.current = targetRate;
      scrollTargetVolRef.current = targetVol;
      if (scrollAudio.paused) { try { void scrollAudio.play(); } catch { } }
    };
  \<close>
\<close>

definition onWheel :: "real \<Rightarrow> real \<Rightarrow> bool \<Rightarrow> sound_state \<Rightarrow> sound_state" where
  "onWheel deltaY now allowed s =
     (case scrollAudio s of
        None \<Rightarrow> s
      | Some a \<Rightarrow>
          let dtWheel = min 0.05 (max 0.001 ((now - lastWheelAt s) / 1000));
              raw = \<bar>deltaY\<bar>;
              clamped = min 220 raw;
              intensity = approach (wheelIntensity s) clamped (900 * dtWheel);
              normalized = min 1 (intensity / 120);
              targetRate = 1 + normalized * 0.55;
              targetVol = normalized * 0.32
          in s\<lparr>lastWheelAt := now,
                wheelIntensity := intensity,
                scrollTargetRate := targetRate,
                scrollTargetVol := targetVol,
                scrollAudio := Some (if paused a then audio_play allowed a else a)\<rparr>)"

text \<open>
  \<^verbatim>\<open>
    const tick = () => {
      rafId = requestAnimationFrame(tick);
      const scrollAudio = scrollAudioRef.current;
      if (!scrollAudio) return;
      const now = performance.now();
      const dt = Math.min(0.05, (now - lastRafAt) / 1000);
      lastRafAt = now;
      const sinceWheel = now - lastWheelAtRef.current;
      if (sinceWheel > 90) {
        scrollTargetVolRef.current = Math.max(0, scrollTargetVolRef.current - 0.9 * dt);
        scrollTargetRateRef.current = approach(scrollTargetRateRef.current, 1, 1.2 * dt);
      }
      scrollCurrentRateRef.current = approach(scrollCurrentRateRef.current, scrollTargetRateRef.current, 3.0 * dt);
      scrollCurrentVolRef.current = approach(scrollCurrentVolRef.current, scrollTargetVolRef.current, 2.0 * dt);
      scrollAudio.playbackRate = scrollCurrentRateRef.current;
      scrollAudio.volume = scrollCurrentVolRef.current;
      if (sinceWheel > 220 && scrollCurrentVolRef.current < 0.01) {
        scrollAudio.pause();
        scrollAudio.currentTime = 0;
      }
    };
  \<close>
  The attribute writes are plain assignments in the model.  (The platform rejects a
  volume outside \<open>[0, 1]\<close>; lemma \<open>sound_run_mount_ranges\<close> below shows that from
  \<open>mount\<close> on, with a clock that does not run backwards, the value written is within
  \<open>[0, 0.32]\<close>.)
\<close>

definition tick :: "real \<Rightarrow> sound_state \<Rightarrow> sound_state" where
  "tick now s =
     (case scrollAudio s of
        None \<Rightarrow> s
      | Some a \<Rightarrow>
          let dt = min 0.05 ((now - lastRafAt s) / 1000);
              sinceWheel = now - lastWheelAt s;
              targetVol = (if sinceWheel > 90 then max 0 (scrollTargetVol s - 0.9 * dt)
                           else scrollTargetVol s);
              targetRate = (if sinceWheel > 90 then approach (scrollTargetRate s) 1 (1.2 * dt)
                            else scrollTargetRate s);
              currentRate = approach (scrollCurrentRate s) targetRate (3.0 * dt);
              currentVol = approach (scrollCurrentVol s) targetVol (2.0 * dt);
              a1 = a\<lparr>playbackRate := currentRate, volume := currentVol\<rparr>;
              a2 = (if sinceWheel > 220 \<and> currentVol < 0.01
                    then (audio_pause a1)\<lparr>currentTime := 0\<rparr> else a1)
          in s\<lparr>lastRafAt := now,
                scrollTargetVol := targetVol,
                scrollTargetRate := targetRate,
                scrollCurrentRate := currentRate,
                scrollCurrentVol := currentVol,
                scrollAudio := Some a2\<rparr>)"

text \<open>
  The events the component listens to, each with what the handler reads from the
  environment, and a run of the component: the handlers applied in the order of the
  events.
\<close>

datatype sound_event =
    PointerDown "int option" real real bool
  | Wheel real real bool
  | Tick real

fun sound_step :: "sound_event \<Rightarrow> sound_state \<Rightarrow> sound_state" where
  "sound_step (PointerDown button now rnd allowed) s = onPointerDown button now rnd allowed s"
| "sound_step (Wheel deltaY now allowed) s = onWheel deltaY now allowed s"
| "sound_step (Tick now) s = tick now s"

fun sound_run :: "sound_event list \<Rightarrow> sound_state \<Rightarrow> sound_state" where
  "sound_run [] s = s"
| "sound_run (e # es) s = sound_run es (sound_step e s)"

text \<open>The playback invocations made on the click pools so far.\<close>

definition clickPlays :: "sound_state \<Rightarrow> nat" where
  "clickPlays s = (case clickPools s of None \<Rightarrow> 0 | Some pools \<Rightarrow> sum_list (map poolPlays pools))"

text \<open>
  Animation ticks alone, at the given times, and the condition that consecutive ticks
  (the first counted from time \<open>t\<close>) are at least \<open>gap\<close> milliseconds apart.
\<close>

fun ticks :: "real list \<Rightarrow> sound_state \<Rightarrow> sound_state" where
  "ticks [] s = s"
| "ticks (now # rest) s = ticks rest (tick now s)"

fun spaced :: "real \<Rightarrow> real \<Rightarrow> real list \<Rightarrow> bool" where
  "spaced gap t [] = True"
| "spaced gap t (now # rest) = (t + gap \<le> now \<and> spaced gap now rest)"

text \<open>
  The shape of a pool that \<open>makeAudioPool\<close> built with at least one clip and that has only
  been played from since: the cursor is an index, namely the number of plays modulo the
  number of clips.  \<open>pools_ok\<close> says it of every click pool of a state.
\<close>

definition pool_ok :: "AudioPool \<Rightarrow> bool" where
  "pool_ok pool =
     (0 < length (clips pool) \<and> nextIndex pool = Index (poolPlays pool mod length (clips pool)))"

definition pools_ok :: "sound_state \<Rightarrow> bool" where
  "pools_ok s = (case clickPools s of None \<Rightarrow> False | Some pools \<Rightarrow> pools \<noteq> [] \<and> list_all pool_ok pools)"

text \<open>
  A bound on the number of ticks, at least \<open>gap\<close> milliseconds apart, after which the
  scroll sound is silent when no wheel event arrives: the ticks until 220 ms have passed
  since the last wheel event, and the ticks in which the larger of the two volumes decays
  at 0.9 per second from then on (a tick counts for \<open>gap\<close> milliseconds, 50 at most).
\<close>

definition idle_bound :: "real \<Rightarrow> sound_state \<Rightarrow> real" where
  "idle_bound gap s =
     max 0 ((lastWheelAt s + 220 - lastRafAt s) / gap)
     + max (scrollTargetVol s) (scrollCurrentVol s) / (0.9 * min 0.05 (gap / 1000))"

text \<open>
  The time an event's handler reads, and the condition that the clock of a list of events
  does not run backwards from time \<open>t\<close> on.
\<close>

fun event_time :: "sound_event \<Rightarrow> real" where
  "event_time (PointerDown button now rnd allowed) = now"
| "event_time (Wheel deltaY now allowed) = now"
| "event_time (Tick now) = now"

fun clock_ok :: "real \<Rightarrow> sound_event list \<Rightarrow> bool" where
  "clock_ok t [] = True"
| "clock_ok t (e # es) = (t \<le> event_time e \<and> clock_ok (event_time e) es)"

text \<open>
  The ranges the scroll sound keeps from \<open>mount\<close> on: the intensity accumulator, both
  volumes and the volume attribute of the clip.
\<close>

definition scroll_ranges :: "sound_state \<Rightarrow> bool" where
  "scroll_ranges s =
     (0 \<le> wheelIntensity s \<and> wheelIntensity s \<le> 220
      \<and> 0 \<le> scrollTargetVol s \<and> scrollTargetVol s \<le> 0.32
      \<and> 0 \<le> scrollCurrentVol s \<and> scrollCurrentVol s \<le> 0.32
      \<and> (case scrollAudio s of None \<Rightarrow> False | Some a \<Rightarrow> 0 \<le> volume a \<and> volume a \<le> 0.32))"

section \<open>The rotating image tube (the two versions of the scene file)\<close>

text \<open>
  The repository holds two versions of the scene: one whose tube has 3 rows of 6 tiles and
  slows down while a tile is hovered, and one whose tube has 5 rows of 5 tiles and mounts
  the grid plane.  Their scroll and spin code is the same, line for line.
\<close>

datatype scene = Scene_000 | Scene_001

fun rows :: "scene \<Rightarrow> real" where
  "rows Scene_000 = 3"
| "rows Scene_001 = 5"

definition ySpacing :: real where
  "ySpacing = 2.7"

definition loopHeight :: "scene \<Rightarrow> real" where
  "loopHeight v = rows v * ySpacing"

text \<open>
  The refs that \<open>FiberScene\<close> hands to \<open>ImageTube\<close> (\<open>tubeScrollTarget\<close>,
  \<open>tubeSpinVelocity\<close>, \<open>tubeNaturalDir\<close>, \<open>tubeAngle\<close>) and the refs of \<open>ImageTube\<close> itself.
  \<open>isHovering\<close> and \<open>speedMultiplier\<close> exist in the first version only.
\<close>

record tube_state =
  scrollCurrent :: real
  scrollTarget :: real
  spinVelocity :: real
  naturalDir :: real
  angle :: real
  tubeAngle :: real
  isHovering :: bool
  speedMultiplier :: real

definition tube_init :: tube_state where
  "tube_init =
     \<lparr>scrollCurrent = 0, scrollTarget = 0, spinVelocity = 0, naturalDir = 1, angle = 0,
      tubeAngle = 0, isHovering = False, speedMultiplier = 1\<rparr>"

text \<open>
  \<^verbatim>\<open>
  const onWheel = useCallback((event: React.WheelEvent<HTMLDivElement>) => {
    tubeScrollTarget.current += event.deltaY * 0.002;
    tubeSpinVelocity.current += event.deltaY * 0.004;
    if (event.deltaY < 0) tubeNaturalDir.current = -1;
    else if (event.deltaY > 0) tubeNaturalDir.current = 1;
  }, []);
  \<close>
\<close>

definition FiberScene_onWheel :: "real \<Rightarrow> tube_state \<Rightarrow> tube_state" where
  "FiberScene_onWheel deltaY s =
     s\<lparr>scrollTarget := scrollTarget s + deltaY * 0.002,
       spinVelocity := spinVelocity s + deltaY * 0.004,
       naturalDir := (if deltaY < 0 then - 1 else if deltaY > 0 then 1 else naturalDir s)\<rparr>"

text \<open>\<open>handleHover\<close> (first version): \<open>isHovering.current = projectName !== null\<close>.\<close>

definition handleHover :: "bool \<Rightarrow> tube_state \<Rightarrow> tube_state" where
  "handleHover hasProject s = s\<lparr>isHovering := hasProject\<rparr>"

text \<open>
  The start of the frame callback of \<open>ImageTube\<close>:
  \<^verbatim>\<open>
    scrollCurrent.current += (scrollTargetRef.current - scrollCurrent.current) * 0.12;
    if (scrollCurrent.current > loopHeight / 2) {
      scrollCurrent.current -= loopHeight;
      scrollTargetRef.current -= loopHeight;
    } else if (scrollCurrent.current < -loopHeight / 2) {
      scrollCurrent.current += loopHeight;
      scrollTargetRef.current += loopHeight;
    }
  \<close>
\<close>

definition scrollFrame :: "real \<Rightarrow> tube_state \<Rightarrow> tube_state" where
  "scrollFrame height s =
     (let s1 = s\<lparr>scrollCurrent := scrollCurrent s + (scrollTarget s - scrollCurrent s) * 0.12\<rparr>
      in if scrollCurrent s1 > height / 2
         then s1\<lparr>scrollCurrent := scrollCurrent s1 - height, scrollTarget := scrollTarget s1 - height\<rparr>
         else if scrollCurrent s1 < - height / 2
         then s1\<lparr>scrollCurrent := scrollCurrent s1 + height, scrollTarget := scrollTarget s1 + height\<rparr>
         else s1)"

text \<open>
  \<^verbatim>\<open>
    const damping = 0.92;
    spinVelocityRef.current *= Math.pow(damping, dt * 60);
    spinVelocityRef.current = Math.max(-2.0, Math.min(2.0, spinVelocityRef.current));
  \<close>
\<close>

definition damping :: real where
  "damping = 0.92"

definition spinDecay :: "real \<Rightarrow> real" where
  "spinDecay dt = damping powr (dt * 60)"

definition spinFrame :: "real \<Rightarrow> tube_state \<Rightarrow> tube_state" where
  "spinFrame dt s = s\<lparr>spinVelocity := max (- 2.0) (min 2.0 (spinVelocity s * spinDecay dt))\<rparr>"

text \<open>
  The frame callback, up to the point where it stores the angle.  In the first version:
  \<^verbatim>\<open>
    const targetMultiplier = isHovering.current ? 0.05 : 1;
    speedMultiplier.current += (targetMultiplier - speedMultiplier.current) * 0.1;
    ... (spin) ...
    const baseSpeed = naturalDirRef.current * 0.25 * speedMultiplier.current;
    angle.current += (baseSpeed + spinVelocityRef.current * speedMultiplier.current) * dt;
    tubeAngleRef.current = angle.current;
  \<close>
  and in the second:
  \<^verbatim>\<open>
    const baseSpeed = naturalDirRef.current * 0.25;
    angle.current += (baseSpeed + spinVelocityRef.current) * dt;
    tubeAngleRef.current = angle.current;
  \<close>
  What follows in the callback writes the scene graph (the group's height, the rows'
  rotations) from these refs and changes none of them.
\<close>

fun ImageTube_useFrame :: "scene \<Rightarrow> real \<Rightarrow> tube_state \<Rightarrow> tube_state" where
  "ImageTube_useFrame Scene_000 dt s =
     (let s1 = scrollFrame (loopHeight Scene_000) s;
          targetMultiplier = (if isHovering s1 then 0.05 else 1);
          s2 = s1\<lparr>speedMultiplier := speedMultiplier s1 + (targetMultiplier - speedMultiplier s1) * 0.1\<rparr>;
          s3 = spinFrame dt s2;
          baseSpeed = naturalDir s3 * 0.25 * speedMultiplier s3;
          s4 = s3\<lparr>angle := angle s3 + (baseSpeed + spinVelocity s3 * speedMultiplier s3) * dt\<rparr>
      in s4\<lparr>tubeAngle := angle s4\<rparr>)"
| "ImageTube_useFrame Scene_001 dt s =
     (let s1 = scrollFrame (loopHeight Scene_001) s;
          s2 = spinFrame dt s1;
          baseSpeed = naturalDir s2 * 0.25;
          s3 = s2\<lparr>angle := angle s2 + (baseSpeed + spinVelocity s2) * dt\<rparr>
      in s3\<lparr>tubeAngle := angle s3\<rparr>)"

text \<open>The events of the tube: a wheel event, a frame with its elapsed time, a hover change.\<close>

datatype tube_event = TubeWheel real | TubeFrame real | TubeHover bool

fun tube_step :: "scene \<Rightarrow> tube_event \<Rightarrow> tube_state \<Rightarrow> tube_state" where
  "tube_step v (TubeWheel deltaY) s = FiberScene_onWheel deltaY s"
| "tube_step v (TubeFrame dt) s = ImageTube_useFrame v dt s"
| "tube_step Scene_000 (TubeHover hasProject) s = handleHover hasProject s"
| "tube_step Scene_001 (TubeHover hasProject) s = s"

text \<open>
  Unwrapping.  A frame that wraps takes one loop height off (or adds it to) both the
  position and the target; \<open>wrapShift\<close> is what the event took off the target that way.
  \<open>unwrapped\<close> follows a run of events with the sum \<open>removed\<close> of these shifts and lists,
  after each event, the position and the target with \<open>removed\<close> added back.
\<close>

fun wrapShift :: "scene \<Rightarrow> tube_event \<Rightarrow> tube_state \<Rightarrow> real" where
  "wrapShift v (TubeFrame dt) s = scrollTarget s - scrollTarget (ImageTube_useFrame v dt s)"
| "wrapShift v (TubeWheel deltaY) s = 0"
| "wrapShift v (TubeHover hasProject) s = 0"

fun unwrapped :: "scene \<Rightarrow> real \<Rightarrow> tube_state \<Rightarrow> tube_event list \<Rightarrow> (real \<times> real) list" where
  "unwrapped v removed s [] = []"
| "unwrapped v removed s (e # es) =
     (let s' = tube_step v e s; removed' = removed + wrapShift v e s
      in (scrollCurrent s' + removed', scrollTarget s' + removed') # unwrapped v removed' s' es)"

section \<open>The pointer-driven focus point of the grid shader\<close>

text \<open>
  A \<open>Vector2\<close> is a pair.  The state is the ref \<open>targetCenterUv\<close> of \<open>FiberScene\<close> and the
  uniforms \<open>uCenter\<close> and \<open>uTime\<close> of \<open>GridPlane\<close>.
\<close>

record grid_state =
  targetCenterUv :: "real \<times> real"
  uCenter :: "real \<times> real"
  uTime :: real

definition grid_init :: grid_state where
  "grid_init = \<lparr>targetCenterUv = (0.5, 0.5), uCenter = (0.5, 0.5), uTime = 0.0\<rparr>"

text \<open>
  \<open>Vector2.lerp(v, alpha)\<close> belongs to the rendering library, not to the repository:
  \<open>this.x += (v.x - this.x) * alpha\<close>, and the same for \<open>y\<close>.
\<close>

definition Vector2_lerp :: "real \<times> real \<Rightarrow> real \<times> real \<Rightarrow> real \<Rightarrow> real \<times> real" where
  "Vector2_lerp this v alpha =
     (fst this + (fst v - fst this) * alpha, snd this + (snd v - snd this) * alpha)"

text \<open>
  \<^verbatim>\<open>
  const onPointerMove = useCallback((event: React.PointerEvent<HTMLDivElement>) => {
    const rect = event.currentTarget.getBoundingClientRect();
    if (rect.width <= 0 || rect.height <= 0) return;
    const nx = (event.clientX - rect.left) / rect.width;
    const ny = (event.clientY - rect.top) / rect.height;
    const clampedX = Math.min(1, Math.max(0, nx));
    const clampedY = Math.min(1, Math.max(0, ny));
    const uvX = clampedX;
    const uvY = 1 - clampedY;
    const strength = 0.4;
    const cx = 0.5 + (uvX - 0.5) * strength;
    const cy = 0.5 + (uvY - 0.5) * strength;
    targetCenterUv.current.set(Math.min(1, Math.max(0, cx)), Math.min(1, Math.max(0, cy)));
  }, []);
  \<close>
  (The first version of the scene also stores the cursor position for a label; that
  React state is not part of this model.)
\<close>

definition onPointerMove ::
    "real \<Rightarrow> real \<Rightarrow> real \<Rightarrow> real \<Rightarrow> real \<Rightarrow> real \<Rightarrow> grid_state \<Rightarrow> grid_state" where
  "onPointerMove rectLeft rectTop rectWidth rectHeight clientX clientY s =
     (if rectWidth \<le> 0 \<or> rectHeight \<le> 0 then s
      else
        let nx = (clientX - rectLeft) / rectWidth;
            ny = (clientY - rectTop) / rectHeight;
            clampedX = min 1 (max 0 nx);
            clampedY = min 1 (max 0 ny);
            uvX = clampedX;
            uvY = 1 - clampedY;
            strength = 0.4;
            cx = 0.5 + (uvX - 0.5) * strength;
            cy = 0.5 + (uvY - 0.5) * strength
        in s\<lparr>targetCenterUv := (min 1 (max 0 cx), min 1 (max 0 cy))\<rparr>)"

text \<open>\<open>onPointerLeave\<close>: \<open>targetCenterUv.current.set(0.5, 0.5)\<close>.\<close>

definition onPointerLeave :: "grid_state \<Rightarrow> grid_state" where
  "onPointerLeave s = s\<lparr>targetCenterUv := (0.5, 0.5)\<rparr>"

text \<open>
  The frame callback of \<open>GridPlane\<close>; \<open>meshPresent\<close> says whether \<open>meshRef.current\<close> is set,
  \<open>elapsed\<close> is the clock's elapsed time:
  \<^verbatim>\<open>
  useFrame((state) => {
    const mesh = meshRef.current;
    if (!mesh) return;
    const material = mesh.material as ShaderMaterial;
    material.uniforms.uTime.value = state.clock.getElapsedTime();
    (material.uniforms.uCenter.value as Vector2).lerp(targetCenterUv.current, 0.08);
  });
  \<close>
\<close>

definition GridPlane_useFrame :: "bool \<Rightarrow> real \<Rightarrow> grid_state \<Rightarrow> grid_state" where
  "GridPlane_useFrame meshPresent elapsed s =
     (if \<not> meshPresent then s
      else s\<lparr>uTime := elapsed, uCenter := Vector2_lerp (uCenter s) (targetCenterUv s) 0.08\<rparr>)"

datatype grid_event =
    PointerMove real real real real real real
  | PointerLeave
  | GridFrame bool real

fun grid_step :: "grid_event \<Rightarrow> grid_state \<Rightarrow> grid_state" where
  "grid_step (PointerMove rectLeft rectTop rectWidth rectHeight clientX clientY) s =
     onPointerMove rectLeft rectTop rectWidth rectHeight clientX clientY s"
| "grid_step PointerLeave s = onPointerLeave s"
| "grid_step (GridFrame meshPresent elapsed) s = GridPlane_useFrame meshPresent elapsed s"

fun grid_run :: "grid_event list \<Rightarrow> grid_state \<Rightarrow> grid_state" where
  "grid_run [] s = s"
| "grid_run (e # es) s = grid_run es (grid_step e s)"

definition in_focus_square :: "real \<times> real \<Rightarrow> bool" where
  "in_focus_square p = (0.3 \<le> fst p \<and> fst p \<le> 0.7 \<and> 0.3 \<le> snd p \<and> snd p \<le> 0.7)"

section \<open>Properties of the damped-approach step\<close>

lemma approach_same: "approach target target maxDelta = target"
  by (simp add: approach_def)

lemma approach_lower: "0 \<le> maxDelta \<Longrightarrow> min current target \<le> approach current target maxDelta"
  by (simp add: approach_def)

lemma approach_upper: "0 \<le> maxDelta \<Longrightarrow> approach current target maxDelta \<le> max current target"
  by (simp add: approach_def)

lemma approach_distance:
  "0 \<le> maxDelta \<Longrightarrow>
     \<bar>approach current target maxDelta - current\<bar> = min maxDelta \<bar>target - current\<bar>"
  by (simp add: approach_def min_def max_def)

text \<open>
  Claim C1.  For every \<open>current\<close>, \<open>target\<close> and \<open>maxDelta \<ge> 0\<close>, one step returns a
  value in the closed interval between \<open>current\<close> and \<open>target\<close>: the value has moved from
  \<open>current\<close> by at most \<open>maxDelta\<close> (exactly by the smaller of \<open>maxDelta\<close> and the distance
  to the target), it is no farther from \<open>target\<close> than \<open>current\<close> was, and it is not beyond
  \<open>target\<close>.
\<close>

theorem approach_within_interval:
  assumes "0 \<le> maxDelta"
  shows "min current target \<le> approach current target maxDelta
       \<and> approach current target maxDelta \<le> max current target
       \<and> \<bar>approach current target maxDelta - current\<bar> \<le> maxDelta
       \<and> \<bar>approach current target maxDelta - current\<bar> = min maxDelta \<bar>target - current\<bar>
       \<and> \<bar>target - approach current target maxDelta\<bar> \<le> \<bar>target - current\<bar>"
proof -
  have d: "\<bar>approach current target maxDelta - current\<bar> = min maxDelta \<bar>target - current\<bar>"
    using assms by (rule approach_distance)
  have lo: "min current target \<le> approach current target maxDelta"
    using assms by (rule approach_lower)
  have hi: "approach current target maxDelta \<le> max current target"
    using assms by (rule approach_upper)
  have closer: "\<bar>target - approach current target maxDelta\<bar> \<le> \<bar>target - current\<bar>"
    using assms by (simp add: approach_def)
  from d have "\<bar>approach current target maxDelta - current\<bar> \<le> maxDelta"
    by simp
  with d lo hi closer show ?thesis
    by simp
qed

theorem approach_within_interval_witness:
  "min 0 10 \<le> approach 0 10 3 \<and> approach 0 10 3 \<le> max 0 10
   \<and> approach 0 10 3 = 3 \<and> approach 10 0 3 = 7 \<and> approach 9 10 3 = 10
   \<and> \<bar>approach 9 10 3 - 9\<bar> = min 3 \<bar>10 - 9\<bar>"
  using approach_within_interval [of 3 0 10] approach_within_interval [of 3 9 10]
  by (simp add: approach_def)

subsection \<open>Repeated application\<close>

lemma approach_seq_up:
  "0 \<le> maxDelta \<Longrightarrow> current \<le> target \<Longrightarrow>
     approach_seq current target maxDelta n = min target (current + real n * maxDelta)"
proof (induction n)
  case 0
  then show ?case by simp
next
  case (Suc n)
  then show ?case
    by (simp add: approach_def min_def algebra_simps)
qed

lemma approach_seq_down:
  "0 \<le> maxDelta \<Longrightarrow> target \<le> current \<Longrightarrow>
     approach_seq current target maxDelta n = max target (current - real n * maxDelta)"
proof (induction n)
  case 0
  then show ?case by simp
next
  case (Suc n)
  then show ?case
    by (simp add: approach_def max_def algebra_simps)
qed

lemma approach_seq_zero_delta: "approach_seq current target 0 n = current"
  by (induction n) (simp_all add: approach_def)

lemma approach_seq_reaches:
  assumes "0 < maxDelta" and "\<bar>target - current\<bar> / maxDelta \<le> real n"
  shows "approach_seq current target maxDelta n = target"
proof -
  from assms have le: "\<bar>target - current\<bar> \<le> real n * maxDelta"
    by (simp add: pos_divide_le_eq)
  show ?thesis
  proof (cases "current \<le> target")
    case True
    with assms le show ?thesis
      by (simp add: approach_seq_up)
  next
    case False
    with assms le show ?thesis
      by (simp add: approach_seq_down)
  qed
qed

lemma approach_seq_tendsto:
  assumes "0 < maxDelta"
  shows "approach_seq current target maxDelta \<longlonglongrightarrow> target"
proof (rule tendsto_eventually)
  show "\<forall>\<^sub>F n in sequentially. approach_seq current target maxDelta n = target"
    unfolding eventually_sequentially
  proof (intro exI allI impI)
    fix n
    assume "nat \<lceil>\<bar>target - current\<bar> / maxDelta\<rceil> \<le> n"
    then have "\<bar>target - current\<bar> / maxDelta \<le> real n"
      by linarith
    with assms show "approach_seq current target maxDelta n = target"
      by (rule approach_seq_reaches)
  qed
qed

text \<open>
  Claim C2, as the code has it.  Once \<open>current = target\<close> the step is a no-op, for every
  \<open>maxDelta\<close>.  For \<open>maxDelta \<ge> 0\<close> the sequence of repeated steps moves monotonically in the
  direction of \<open>target\<close> and never past it.  For \<open>maxDelta > 0\<close> it is exactly \<open>target\<close> from
  step \<open>\<lceil>|target - current| / maxDelta\<rceil>\<close> on, and so converges to \<open>target\<close>.  (For
  \<open>maxDelta = 0\<close> the sequence is constant, see \<open>approach_seq_zero_delta\<close>: then it does not
  converge to a target other than its start.)
\<close>

theorem approach_seq_converges:
  assumes "0 \<le> maxDelta"
  shows "approach target target maxDelta = target
       \<and> approach_seq target target maxDelta n = target
       \<and> \<bar>target - approach_seq current target maxDelta (Suc n)\<bar>
            \<le> \<bar>target - approach_seq current target maxDelta n\<bar>
       \<and> (if current \<le> target
           then approach_seq current target maxDelta n \<le> approach_seq current target maxDelta (Suc n)
              \<and> approach_seq current target maxDelta (Suc n) \<le> target
           else target \<le> approach_seq current target maxDelta (Suc n)
              \<and> approach_seq current target maxDelta (Suc n) \<le> approach_seq current target maxDelta n)
       \<and> (0 < maxDelta \<longrightarrow>
            approach_seq current target maxDelta (nat \<lceil>\<bar>target - current\<bar> / maxDelta\<rceil> + n) = target
          \<and> approach_seq current target maxDelta \<longlonglongrightarrow> target)"
proof -
  have same: "approach_seq target target maxDelta n = target"
    by (induction n) (simp_all add: approach_same)
  have closer: "\<bar>target - approach_seq current target maxDelta (Suc n)\<bar>
            \<le> \<bar>target - approach_seq current target maxDelta n\<bar>"
    using assms by (simp add: approach_def)
  have mono: "(if current \<le> target
           then approach_seq current target maxDelta n \<le> approach_seq current target maxDelta (Suc n)
              \<and> approach_seq current target maxDelta (Suc n) \<le> target
           else target \<le> approach_seq current target maxDelta (Suc n)
              \<and> approach_seq current target maxDelta (Suc n) \<le> approach_seq current target maxDelta n)"
  proof (cases "current \<le> target")
    case True
    have "approach_seq current target maxDelta n \<le> target"
      using assms True by (simp add: approach_seq_up)
    with assms True show ?thesis
      by (simp add: approach_def)
  next
    case False
    then have "target \<le> approach_seq current target maxDelta n"
      using assms by (simp add: approach_seq_down)
    with assms False show ?thesis
      by (simp add: approach_def)
  qed
  have reach: "approach_seq current target maxDelta (nat \<lceil>\<bar>target - current\<bar> / maxDelta\<rceil> + n) = target"
    if pos: "0 < maxDelta"
  proof -
    have "\<bar>target - current\<bar> / maxDelta \<le> real (nat \<lceil>\<bar>target - current\<bar> / maxDelta\<rceil> + n)"
      by linarith
    with pos show ?thesis
      by (rule approach_seq_reaches)
  qed
  from approach_same same closer mono reach approach_seq_tendsto
  show ?thesis by blast
qed

theorem approach_seq_converges_witness:
  "approach 3 3 1 = 3 \<and> approach_seq 0 3 1 5 = 3 \<and> approach_seq 0 3 1 \<longlonglongrightarrow> 3
   \<and> approach_seq 0 3 1 2 \<le> approach_seq 0 3 1 3"
  using approach_seq_converges [of 1 3 2 0]
  by (simp add: numeral_eq_Suc approach_def)

text \<open>
  The claim as stated, for every \<open>maxDelta \<ge> 0\<close>, fails at \<open>maxDelta = 0\<close>: from 0 towards
  1 the sequence stays at 0.
\<close>

theorem approach_seq_zero_delta_counterexample:
  "\<not> approach_seq 0 1 0 \<longlonglongrightarrow> 1"
proof
  assume "approach_seq 0 1 0 \<longlonglongrightarrow> 1"
  moreover have "approach_seq 0 1 0 = (\<lambda>n. 0)"
    by (rule ext) (rule approach_seq_zero_delta)
  ultimately have "(\<lambda>n::nat. 0::real) \<longlonglongrightarrow> 1"
    by simp
  then show False
    using LIMSEQ_unique [of "\<lambda>n::nat. 0::real" 1 0] by simp
qed

section \<open>The voice pools and the click dispatch\<close>

lemma playNext_valid:
  assumes "nextIndex pool = Index i" and "i < length (clips pool)"
  shows "nextIndex (playNext allowed pool) = Index ((i + 1) mod length (clips pool))"
    and "poolPlays (playNext allowed pool) = poolPlays pool + 1"
proof -
  from assms have ne: "length (clips pool) \<noteq> 0" by auto
  show "nextIndex (playNext allowed pool) = Index ((i + 1) mod length (clips pool))"
    using assms ne by (simp add: playNext_def Let_def)
  have "sum_list ((map playCalls (clips pool))[i := playCalls (clips pool ! i) + 1])
          = sum_list (map playCalls (clips pool)) + 1"
    using assms(2) by (simp add: sum_list_update)
  then show "poolPlays (playNext allowed pool) = poolPlays pool + 1"
    using assms by (simp add: playNext_def Let_def poolPlays_def map_update audio_play_def)
qed

lemma playNext_length: "length (clips (playNext allowed pool)) = length (clips pool)"
  by (simp add: playNext_def Let_def split: cursor.splits)

lemma playMany_length: "length (clips (playMany as pool)) = length (clips pool)"
  by (induction as arbitrary: pool) (simp_all add: playNext_length)

lemma playNext_ok:
  assumes "pool_ok pool"
  shows "pool_ok (playNext allowed pool)"
    and "poolPlays (playNext allowed pool) = poolPlays pool + 1"
proof -
  let ?K = "length (clips pool)"
  from assms have K: "0 < ?K" and idx: "nextIndex pool = Index (poolPlays pool mod ?K)"
    by (simp_all add: pool_ok_def)
  have i: "poolPlays pool mod ?K < ?K" using K by simp
  note step = playNext_valid [OF idx i, of allowed]
  show "poolPlays (playNext allowed pool) = poolPlays pool + 1"
    by (rule step(2))
  show "pool_ok (playNext allowed pool)"
    using step K by (simp add: pool_ok_def playNext_length mod_Suc_eq)
qed

lemma playMany_ok:
  "pool_ok pool \<Longrightarrow>
     pool_ok (playMany as pool) \<and> poolPlays (playMany as pool) = poolPlays pool + length as"
proof (induction as arbitrary: pool)
  case Nil
  then show ?case by simp
next
  case (Cons a as)
  from Cons.prems have "pool_ok (playNext a pool)"
    and "poolPlays (playNext a pool) = poolPlays pool + 1"
    by (rule playNext_ok)+
  with Cons.IH [of "playNext a pool"] show ?case by simp
qed

lemma makeAudioPool_fresh:
  "nextIndex (makeAudioPool url K vol) = Index 0"
  "length (clips (makeAudioPool url K vol)) = K"
  "poolPlays (makeAudioPool url K vol) = 0"
  by (simp_all add: makeAudioPool_def poolPlays_def new_Audio_def)

lemma makeAudioPool_ok: "0 < K \<Longrightarrow> pool_ok (makeAudioPool url K vol)"
  by (simp add: pool_ok_def makeAudioPool_fresh)

lemma list_all_update:
  "list_all P xs \<Longrightarrow> P y \<Longrightarrow> list_all P (xs[i := y])"
  using set_update_subset_insert [of xs i y] by (auto simp: list_all_iff)

lemma sum_list_map_update:
  fixes f :: "'a \<Rightarrow> nat"
  assumes "i < length xs" and "f y = f (xs ! i) + 1"
  shows "sum_list (map f (xs[i := y])) = sum_list (map f xs) + 1"
  using assms by (simp add: map_update sum_list_update)

text \<open>The two early returns of the handler.\<close>

lemma onPointerDown_other_button:
  "b \<noteq> 0 \<Longrightarrow> onPointerDown (Some b) now rnd allowed s = s"
  by (simp add: onPointerDown_def)

lemma onPointerDown_suppressed:
  "now - lastPointerDownAt s < 25 \<Longrightarrow> onPointerDown button now rnd allowed s = s"
  by (simp add: onPointerDown_def)

lemma random_index:
  assumes "0 \<le> rnd" and "rnd < 1" and "0 < n"
  shows "0 \<le> \<lfloor>rnd * real n\<rfloor>" and "\<lfloor>rnd * real n\<rfloor> < int n"
proof -
  from assms show "0 \<le> \<lfloor>rnd * real n\<rfloor>" by simp
  from assms have "rnd * real n < real n" by simp
  then show "\<lfloor>rnd * real n\<rfloor> < int n"
    by (simp add: floor_less_iff)
qed

text \<open>A dispatch: a primary-button event outside the suppression window.\<close>

lemma onPointerDown_dispatch:
  assumes ok: "pools_ok s" and rnd: "0 \<le> rnd" "rnd < 1"
    and late: "25 \<le> now - lastPointerDownAt s"
  shows "clickPlays (onPointerDown (Some 0) now rnd allowed s) = clickPlays s + 1"
    and "lastPointerDownAt (onPointerDown (Some 0) now rnd allowed s) = now"
    and "pools_ok (onPointerDown (Some 0) now rnd allowed s)"
proof -
  from ok obtain pools where pools: "clickPools s = Some pools" "pools \<noteq> []" "list_all pool_ok pools"
    by (auto simp: pools_ok_def split: option.splits)
  let ?k = "\<lfloor>rnd * real (length pools)\<rfloor>"
  from pools(2) have n: "0 < length pools" by simp
  note k = random_index [OF rnd n]
  then have kn: "nat ?k < length pools" by linarith
  have res: "onPointerDown (Some 0) now rnd allowed s
      = s\<lparr>lastPointerDownAt := now,
           clickPools := Some (pools[nat ?k := playNext allowed (pools ! nat ?k)])\<rparr>"
    using late pools k by (simp add: onPointerDown_def Let_def)
  from pools(3) kn have pk: "pool_ok (pools ! nat ?k)"
    by (simp add: list_all_length)
  note step = playNext_ok [OF pk, of allowed]
  show "lastPointerDownAt (onPointerDown (Some 0) now rnd allowed s) = now"
    by (simp add: res)
  show "pools_ok (onPointerDown (Some 0) now rnd allowed s)"
    using pools step(1) by (simp add: res pools_ok_def list_all_update)
  show "clickPlays (onPointerDown (Some 0) now rnd allowed s) = clickPlays s + 1"
    using pools kn step(2) by (simp add: res clickPlays_def sum_list_map_update)
qed

lemma onPointerDown_pools:
  assumes pools: "clickPools s = Some pools" and all: "list_all P pools"
    and step: "\<And>p a. P p \<Longrightarrow> P (playNext a p)"
  shows "\<exists>pools'. clickPools (onPointerDown button now rnd allowed s) = Some pools'
           \<and> length pools' = length pools \<and> list_all P pools'"
proof -
  let ?k = "nat \<lfloor>rnd * real (length pools)\<rfloor>"
  have upd: "list_all P (pools[?k := playNext allowed (pools ! ?k)])"
    if "?k < length pools"
  proof -
    from all that have "P (pools ! ?k)" by (simp add: list_all_length)
    then have "P (playNext allowed (pools ! ?k))" by (rule step)
    with all show ?thesis by (rule list_all_update)
  qed
  have "int ?k < int (length pools) \<Longrightarrow> ?k < length pools" by linarith
  with pools all upd show ?thesis
    by (auto simp: onPointerDown_def Let_def split: option.splits)
qed

lemma onWheel_clickPools: "clickPools (onWheel deltaY now allowed s) = clickPools s"
  by (simp add: onWheel_def Let_def split: option.splits)

lemma tick_clickPools: "clickPools (tick now s) = clickPools s"
  by (simp add: tick_def Let_def split: option.splits)

lemma sound_step_pools:
  assumes "clickPools s = Some pools" and "list_all P pools"
    and "\<And>p a. P p \<Longrightarrow> P (playNext a p)"
  shows "\<exists>pools'. clickPools (sound_step e s) = Some pools'
           \<and> length pools' = length pools \<and> list_all P pools'"
proof (cases e)
  case (PointerDown button now rnd allowed)
  with onPointerDown_pools [OF assms, of button now rnd allowed] show ?thesis by simp
next
  case (Wheel deltaY now allowed)
  with assms(1,2) show ?thesis by (simp add: onWheel_clickPools)
next
  case (Tick now)
  with assms(1,2) show ?thesis by (simp add: tick_clickPools)
qed

lemma sound_run_pools:
  assumes "clickPools s = Some pools" and "list_all P pools"
    and step: "\<And>p a. P p \<Longrightarrow> P (playNext a p)"
  shows "\<exists>pools'. clickPools (sound_run es s) = Some pools'
           \<and> length pools' = length pools \<and> list_all P pools'"
  using assms(1,2)
proof (induction es arbitrary: s pools)
  case Nil
  then show ?case by simp
next
  case (Cons e es)
  from sound_step_pools [OF Cons.prems step, of e]
  obtain pools' where p': "clickPools (sound_step e s) = Some pools'"
    "length pools' = length pools" "list_all P pools'"
    by blast
  from Cons.IH [OF p'(1) p'(3)] p'(2) show ?case by simp
qed

lemma mount_pools:
  "clickPools (mount t) = Some [makeAudioPool ''/sounds/clickDown.mp3'' 4 0.35,
                                 makeAudioPool ''/sounds/clickUp.mp3'' 4 0.35]"
  by (simp add: mount_def clickUrls_def)

lemma sound_run_mount_pools:
  "\<exists>pools. clickPools (sound_run es (mount t)) = Some pools \<and> length pools = 2
      \<and> list_all (\<lambda>p. pool_ok p \<and> length (clips p) = 4) pools"
proof -
  have "list_all (\<lambda>p. pool_ok p \<and> length (clips p) = 4)
          [makeAudioPool ''/sounds/clickDown.mp3'' 4 0.35, makeAudioPool ''/sounds/clickUp.mp3'' 4 0.35]"
    by (simp add: makeAudioPool_ok makeAudioPool_fresh)
  from sound_run_pools [OF mount_pools this, of es t]
  show ?thesis by (auto simp: playNext_ok(1) playNext_length)
qed

lemma sound_run_pools_ok: "pools_ok (sound_run es (mount t))"
  using sound_run_mount_pools [of es t]
  by (auto simp: pools_ok_def list_all_iff)

lemma playNext_src: "map src (clips (playNext allowed pool)) = map src (clips pool)"
proof (cases "nextIndex pool")
  case NaN
  then show ?thesis by (simp add: playNext_def)
next
  case (Index i)
  show ?thesis
  proof (cases "i < length (clips pool)")
    case True
    have "(map src (clips pool))[i := src (clips pool ! i)] = map src (clips pool)"
      using True by (simp add: list_update_same_conv)
    with Index True show ?thesis
      by (simp add: playNext_def Let_def map_update audio_play_def)
  next
    case False
    with Index show ?thesis by (simp add: playNext_def Let_def)
  qed
qed

lemma playMany_src: "map src (clips (playMany as pool)) = map src (clips pool)"
  by (induction as arbitrary: pool) (simp_all add: playNext_src)

lemma makeAudioPool_src: "map src (clips (makeAudioPool url K vol)) = replicate K url"
  by (simp add: makeAudioPool_def new_Audio_def)

text \<open>
  Claim C6.  A pool of \<open>K > 0\<close> clips fresh from \<open>makeAudioPool\<close> has its cursor at
  \<open>N mod K\<close> after \<open>N\<close> plays (whatever the platform answered to each), the cursor is an
  index below \<open>K\<close>, the pool still has its \<open>K\<close> clips (the ones created for \<open>url\<close>), and
  the clips have been played \<open>N\<close> times together.  In the component: after any run of events from \<open>mount\<close> there are the
  two pools, each with its four clips and its cursor at the number of plays made on it
  modulo 4.
\<close>

theorem pool_cursor_round_robin:
  assumes "0 < K"
  shows "nextIndex (playMany as (makeAudioPool url K vol)) = Index (length as mod K)
       \<and> length as mod K < K
       \<and> length (clips (playMany as (makeAudioPool url K vol))) = K
       \<and> map src (clips (playMany as (makeAudioPool url K vol))) = replicate K url
       \<and> poolPlays (playMany as (makeAudioPool url K vol)) = length as
       \<and> (case clickPools (sound_run es (mount t)) of
            None \<Rightarrow> False
          | Some pools \<Rightarrow>
              length pools = 2
            \<and> list_all (\<lambda>p. length (clips p) = 4 \<and> nextIndex p = Index (poolPlays p mod 4)) pools)"
proof -
  let ?p = "makeAudioPool url K vol"
  from assms have "pool_ok ?p" by (rule makeAudioPool_ok)
  then have "pool_ok (playMany as ?p) \<and> poolPlays (playMany as ?p) = poolPlays ?p + length as"
    by (rule playMany_ok)
  then have cur: "nextIndex (playMany as ?p) = Index (length as mod K)"
    and cnt: "poolPlays (playMany as ?p) = length as"
    by (simp_all add: pool_ok_def playMany_length makeAudioPool_fresh)
  have len: "length (clips (playMany as ?p)) = K"
    by (simp add: playMany_length makeAudioPool_fresh)
  have same: "map src (clips (playMany as ?p)) = replicate K url"
    by (simp only: playMany_src makeAudioPool_src)
  from sound_run_mount_pools [of es t]
  have run: "(case clickPools (sound_run es (mount t)) of
            None \<Rightarrow> False
          | Some pools \<Rightarrow>
              length pools = 2
            \<and> list_all (\<lambda>p. length (clips p) = 4 \<and> nextIndex p = Index (poolPlays p mod 4)) pools)"
    by (auto simp: pool_ok_def list_all_iff)
  from cur cnt len same run assms show ?thesis by simp
qed

theorem pool_cursor_round_robin_witness:
  "nextIndex (playMany [True, False, True, True, True, True] (makeAudioPool ''/sounds/clickUp.mp3'' 4 0.35))
     = Index 2
   \<and> poolPlays (playMany [True, False, True, True, True, True] (makeAudioPool ''/sounds/clickUp.mp3'' 4 0.35)) = 6
   \<and> length (clips (playMany [True, False, True, True, True, True] (makeAudioPool ''/sounds/clickUp.mp3'' 4 0.35))) = 4"
  using pool_cursor_round_robin [of 4 "[True, False, True, True, True, True]" "''/sounds/clickUp.mp3''" "0.35" "[]" 0]
  by simp

lemma clickPlays_mount: "clickPlays (mount t) = 0"
  by (simp add: clickPlays_def mount_pools makeAudioPool_fresh)

lemma lastPointerDownAt_mount: "lastPointerDownAt (mount t) = 0"
  by (simp add: mount_def)

text \<open>
  Claim C9.  A pointer-down event whose button index is a number other than 0 leaves the
  whole state as it was: the pools with their cursors and clips (so no \<open>play()\<close> was
  invoked), the timestamp of the last dispatch, and the scroll-audio targets.  (A DOM
  \<open>PointerEvent\<close> always carries a numeric button, so a playback invocation comes from a
  primary-button event only.)
\<close>

theorem other_button_no_effect:
  assumes "b \<noteq> 0"
  shows "onPointerDown (Some b) now rnd allowed s = s
       \<and> clickPlays (onPointerDown (Some b) now rnd allowed s) = clickPlays s
       \<and> clickPools (onPointerDown (Some b) now rnd allowed s) = clickPools s
       \<and> lastPointerDownAt (onPointerDown (Some b) now rnd allowed s) = lastPointerDownAt s
       \<and> scrollTargetRate (onPointerDown (Some b) now rnd allowed s) = scrollTargetRate s
       \<and> scrollTargetVol (onPointerDown (Some b) now rnd allowed s) = scrollTargetVol s"
  using assms by (simp add: onPointerDown_other_button)

theorem other_button_no_effect_witness:
  "onPointerDown (Some 2) 100 0 True (mount 0) = mount 0
   \<and> clickPlays (onPointerDown (Some 2) 100 0 True (mount 0)) = 0
   \<and> clickPlays (onPointerDown (Some 0) 100 0 True (mount 0)) = 1"
proof -
  have "pools_ok (mount 0)"
    using sound_run_pools_ok [of "[]" 0] by simp
  then have "clickPlays (onPointerDown (Some 0) 100 0 True (mount 0)) = clickPlays (mount 0) + 1"
    by (rule onPointerDown_dispatch) (simp_all add: lastPointerDownAt_mount)
  with other_button_no_effect [of 2 100 0 True "mount 0"] show ?thesis
    by (simp add: clickPlays_mount)
qed

text \<open>
  Claim C5, as the code has it.  Of two primary-button pointer-down events less than
  25 ms apart, at most one invokes playback.  When the first arrives at least 25 ms after
  the previous dispatch it plays one clip, and the second changes nothing.  When only the
  second is at least 25 ms after the previous dispatch, the first changes nothing and the
  second plays.  When both arrive within 25 ms of the previous dispatch (whose timestamp
  is 0 at the start), neither plays and the state is as before.
\<close>

theorem double_pointer_down_at_most_one:
  assumes ok: "pools_ok s"
    and r1: "0 \<le> rndA" "rndA < 1" and r2: "0 \<le> rndB" "rndB < 1"
    and close: "nowB - nowA < 25"
  shows "clickPlays (onPointerDown (Some 0) nowB rndB allowedB (onPointerDown (Some 0) nowA rndA allowedA s))
           \<le> clickPlays s + 1
       \<and> (25 \<le> nowA - lastPointerDownAt s \<longrightarrow>
            clickPlays (onPointerDown (Some 0) nowA rndA allowedA s) = clickPlays s + 1
          \<and> onPointerDown (Some 0) nowB rndB allowedB (onPointerDown (Some 0) nowA rndA allowedA s)
              = onPointerDown (Some 0) nowA rndA allowedA s)
       \<and> (nowA - lastPointerDownAt s < 25 \<and> 25 \<le> nowB - lastPointerDownAt s \<longrightarrow>
            onPointerDown (Some 0) nowA rndA allowedA s = s
          \<and> clickPlays (onPointerDown (Some 0) nowB rndB allowedB (onPointerDown (Some 0) nowA rndA allowedA s))
              = clickPlays s + 1)
       \<and> (nowA - lastPointerDownAt s < 25 \<and> nowB - lastPointerDownAt s < 25 \<longrightarrow>
            onPointerDown (Some 0) nowB rndB allowedB (onPointerDown (Some 0) nowA rndA allowedA s) = s)"
proof -
  let ?s1 = "onPointerDown (Some 0) nowA rndA allowedA s"
  let ?s2 = "onPointerDown (Some 0) nowB rndB allowedB ?s1"
  have first: "clickPlays ?s1 = clickPlays s + 1 \<and> ?s2 = ?s1"
    if late: "25 \<le> nowA - lastPointerDownAt s"
  proof -
    note d = onPointerDown_dispatch [OF ok r1 late, of allowedA]
    from d(2) close have "nowB - lastPointerDownAt ?s1 < 25" by simp
    then have "?s2 = ?s1" by (rule onPointerDown_suppressed)
    with d(1) show ?thesis by simp
  qed
  have second: "?s1 = s \<and> clickPlays ?s2 = clickPlays s + 1"
    if early: "nowA - lastPointerDownAt s < 25" and late: "25 \<le> nowB - lastPointerDownAt s"
  proof -
    from early have s1: "?s1 = s" by (rule onPointerDown_suppressed)
    from onPointerDown_dispatch(1) [OF ok r2 late, of allowedB] s1 show ?thesis by simp
  qed
  have none: "?s2 = s"
    if "nowA - lastPointerDownAt s < 25" and "nowB - lastPointerDownAt s < 25"
    using that by (simp add: onPointerDown_suppressed)
  have "clickPlays ?s2 \<le> clickPlays s + 1"
  proof (cases "25 \<le> nowA - lastPointerDownAt s")
    case True
    with first show ?thesis by simp
  next
    case False
    then have early: "nowA - lastPointerDownAt s < 25" by simp
    show ?thesis
    proof (cases "25 \<le> nowB - lastPointerDownAt s")
      case True
      with second early have "clickPlays ?s2 = clickPlays s + 1" by blast
      then show ?thesis by simp
    next
      case False
      with none early have "?s2 = s" by simp
      then show ?thesis by simp
    qed
  qed
  with first second none show ?thesis by blast
qed

theorem double_pointer_down_at_most_one_witness:
  "clickPlays (onPointerDown (Some 0) 110 0.7 True (onPointerDown (Some 0) 100 0.2 True (mount 0))) = 1
   \<and> onPointerDown (Some 0) 110 0.7 True (onPointerDown (Some 0) 100 0.2 True (mount 0))
       = onPointerDown (Some 0) 100 0.2 True (mount 0)"
proof -
  have ok: "pools_ok (mount 0)"
    using sound_run_pools_ok [of "[]" 0] by simp
  from double_pointer_down_at_most_one
         [where s = "mount 0" and rndA = "0.2" and rndB = "0.7" and nowA = 100 and nowB = 110
            and allowedA = True and allowedB = True, OF ok]
  show ?thesis
    by (simp add: lastPointerDownAt_mount clickPlays_mount)
qed

text \<open>
  The claim as stated, exactly one playback for every such pair, fails for a pair that
  follows a dispatch closely: after a dispatch at 100 ms, the primary-button events at
  110 ms and 120 ms are both inside its window, and the count of playback invocations
  after them is the count before them.
\<close>

theorem double_pointer_down_counterexample:
  "clickPlays (onPointerDown (Some 0) 100 0 True (mount 0)) = 1
   \<and> clickPlays (sound_run [PointerDown (Some 0) 110 0 True, PointerDown (Some 0) 120 0 True]
                   (onPointerDown (Some 0) 100 0 True (mount 0))) = 1"
proof -
  let ?s = "onPointerDown (Some 0) 100 0 True (mount 0)"
  have ok: "pools_ok (mount 0)"
    using sound_run_pools_ok [of "[]" 0] by simp
  have d: "clickPlays ?s = clickPlays (mount 0) + 1" "lastPointerDownAt ?s = 100"
    by (rule onPointerDown_dispatch [OF ok]; simp add: lastPointerDownAt_mount)+
  then show ?thesis
    by (simp add: onPointerDown_suppressed clickPlays_mount)
qed

section \<open>The wheel-driven scroll sound\<close>

lemma onWheel_scrollAudio:
  "scrollAudio s \<noteq> None \<Longrightarrow> scrollAudio (onWheel deltaY now allowed s) \<noteq> None"
  by (auto simp: onWheel_def Let_def)

lemma tick_scrollAudio:
  "scrollAudio s \<noteq> None \<Longrightarrow> scrollAudio (tick now s) \<noteq> None"
  by (auto simp: tick_def Let_def)

lemma onPointerDown_scroll_fields:
  "scrollAudio (onPointerDown button now rnd allowed s) = scrollAudio s"
  "wheelIntensity (onPointerDown button now rnd allowed s) = wheelIntensity s"
  by (simp_all add: onPointerDown_def Let_def split: option.splits)

lemma tick_wheelIntensity: "wheelIntensity (tick now s) = wheelIntensity s"
  by (simp add: tick_def Let_def split: option.splits)

lemma onWheel_intensity_range:
  assumes "0 \<le> wheelIntensity s" and "wheelIntensity s \<le> 220"
  shows "0 \<le> wheelIntensity (onWheel deltaY now allowed s)"
    and "wheelIntensity (onWheel deltaY now allowed s) \<le> 220"
proof -
  let ?d = "900 * min 0.05 (max 0.001 ((now - lastWheelAt s) / 1000))"
  let ?c = "min 220 \<bar>deltaY\<bar>"
  have d: "0 \<le> ?d" by simp
  have lo: "min (wheelIntensity s) ?c \<le> approach (wheelIntensity s) ?c ?d"
    using d by (rule approach_lower)
  have hi: "approach (wheelIntensity s) ?c ?d \<le> max (wheelIntensity s) ?c"
    using d by (rule approach_upper)
  have "0 \<le> min (wheelIntensity s) ?c" using assms(1) by simp
  from this lo have lo': "0 \<le> approach (wheelIntensity s) ?c ?d" by (rule order_trans)
  have "max (wheelIntensity s) ?c \<le> 220" using assms(2) by simp
  from hi this have hi': "approach (wheelIntensity s) ?c ?d \<le> 220" by (rule order_trans)
  show "0 \<le> wheelIntensity (onWheel deltaY now allowed s)"
    using lo' assms(1) by (simp add: onWheel_def Let_def split: option.splits)
  show "wheelIntensity (onWheel deltaY now allowed s) \<le> 220"
    using hi' assms(2) by (simp add: onWheel_def Let_def split: option.splits)
qed

lemma onWheel_targets:
  assumes "scrollAudio s \<noteq> None"
  shows "scrollTargetRate (onWheel deltaY now allowed s)
           = 1 + min 1 (wheelIntensity (onWheel deltaY now allowed s) / 120) * 0.55"
    and "scrollTargetVol (onWheel deltaY now allowed s)
           = min 1 (wheelIntensity (onWheel deltaY now allowed s) / 120) * 0.32"
    and "lastWheelAt (onWheel deltaY now allowed s) = now"
  using assms by (auto simp: onWheel_def Let_def)

lemma sound_step_intensity:
  assumes "scrollAudio s \<noteq> None" and "0 \<le> wheelIntensity s" and "wheelIntensity s \<le> 220"
  shows "scrollAudio (sound_step e s) \<noteq> None \<and> 0 \<le> wheelIntensity (sound_step e s)
       \<and> wheelIntensity (sound_step e s) \<le> 220"
proof (cases e)
  case (PointerDown button now rnd allowed)
  with assms show ?thesis by (simp add: onPointerDown_scroll_fields)
next
  case (Wheel deltaY now allowed)
  with assms onWheel_intensity_range [OF assms(2,3), of deltaY now allowed] show ?thesis
    by (simp add: onWheel_scrollAudio)
next
  case (Tick now)
  with assms show ?thesis by (simp add: tick_wheelIntensity tick_scrollAudio)
qed

lemma sound_run_intensity:
  "scrollAudio s \<noteq> None \<Longrightarrow> 0 \<le> wheelIntensity s \<Longrightarrow> wheelIntensity s \<le> 220 \<Longrightarrow>
     scrollAudio (sound_run es s) \<noteq> None \<and> 0 \<le> wheelIntensity (sound_run es s)
       \<and> wheelIntensity (sound_run es s) \<le> 220"
proof (induction es arbitrary: s)
  case Nil
  then show ?case by simp
next
  case (Cons e es)
  from sound_step_intensity [OF Cons.prems, of e] Cons.IH [of "sound_step e s"]
  show ?case by simp
qed

lemma sound_run_mount_intensity:
  "scrollAudio (sound_run es (mount t)) \<noteq> None \<and> 0 \<le> wheelIntensity (sound_run es (mount t))
       \<and> wheelIntensity (sound_run es (mount t)) \<le> 220"
  by (rule sound_run_intensity) (simp_all add: mount_def)

text \<open>
  Claim C8.  Take any run of events from \<open>mount\<close> and a wheel event after it.  After the
  wheel event the intensity accumulator is within \<open>[0, 220]\<close>, the normalized intensity
  \<open>min(1, intensity / 120)\<close> is within \<open>[0, 1]\<close>, the target playback rate is
  \<open>1 + 0.55 * normalized\<close> and the target volume is \<open>0.32 * normalized\<close>, and so the
  target rate is within \<open>[1, 1.55]\<close> and the target volume within \<open>[0, 0.32]\<close>.
\<close>

theorem wheel_targets_in_range:
  fixes es :: "sound_event list" and deltaY now t :: real and allowed :: bool
  defines "s' \<equiv> onWheel deltaY now allowed (sound_run es (mount t))"
  defines "normalized \<equiv> min 1 (wheelIntensity s' / 120)"
  shows "0 \<le> wheelIntensity s' \<and> wheelIntensity s' \<le> 220
       \<and> 0 \<le> normalized \<and> normalized \<le> 1
       \<and> scrollTargetRate s' = 1 + 0.55 * normalized
       \<and> scrollTargetVol s' = 0.32 * normalized
       \<and> 1 \<le> scrollTargetRate s' \<and> scrollTargetRate s' \<le> 1.55
       \<and> 0 \<le> scrollTargetVol s' \<and> scrollTargetVol s' \<le> 0.32"
proof -
  let ?s = "sound_run es (mount t)"
  note inv = sound_run_mount_intensity [of es t]
  from inv have au: "scrollAudio ?s \<noteq> None" and lo: "0 \<le> wheelIntensity ?s"
    and hi: "wheelIntensity ?s \<le> 220"
    by simp_all
  have i0: "0 \<le> wheelIntensity s'" and i1: "wheelIntensity s' \<le> 220"
    unfolding s'_def using lo hi by (rule onWheel_intensity_range)+
  have n0: "0 \<le> normalized" and n1: "normalized \<le> 1"
    using i0 by (simp_all add: normalized_def)
  have r: "scrollTargetRate s' = 1 + 0.55 * normalized"
    and v: "scrollTargetVol s' = 0.32 * normalized"
    unfolding s'_def normalized_def using onWheel_targets [OF au, of deltaY now allowed]
    by simp_all
  from n0 n1 have "1 \<le> 1 + 0.55 * normalized" "1 + 0.55 * normalized \<le> 1.55"
    "0 \<le> 0.32 * normalized" "0.32 * normalized \<le> 0.32"
    by simp_all
  with i0 i1 n0 n1 r v show ?thesis by simp
qed

theorem wheel_targets_in_range_witness:
  "wheelIntensity (onWheel 120 1000 True (sound_run [] (mount 0))) = 45
   \<and> scrollTargetRate (onWheel 120 1000 True (sound_run [] (mount 0))) = 1 + 0.55 * min 1 (45 / 120)
   \<and> scrollTargetVol (onWheel 120 1000 True (sound_run [] (mount 0))) = 0.12
   \<and> scrollTargetRate (onWheel 120 1000 True (sound_run [] (mount 0))) \<le> 1.55"
proof -
  have i: "wheelIntensity (onWheel 120 1000 True (sound_run [] (mount 0))) = 45"
    by (simp add: onWheel_def mount_def Let_def approach_def new_Audio_def)
  from wheel_targets_in_range [of 120 1000 True "[]" 0] i show ?thesis
    by simp
qed

subsection \<open>Animation ticks\<close>

lemma approach_le_max: "0 \<le> m \<Longrightarrow> approach c t m \<le> max t (c - m)"
  by (simp add: approach_def)

lemma tick_fields:
  assumes "scrollAudio s \<noteq> None"
  shows "lastRafAt (tick now s) = now"
    and "lastWheelAt (tick now s) = lastWheelAt s"
    and "scrollTargetVol (tick now s)
           = (if now - lastWheelAt s > 90
              then max 0 (scrollTargetVol s - 0.9 * min 0.05 ((now - lastRafAt s) / 1000))
              else scrollTargetVol s)"
    and "scrollTargetRate (tick now s)
           = (if now - lastWheelAt s > 90
              then approach (scrollTargetRate s) 1 (1.2 * min 0.05 ((now - lastRafAt s) / 1000))
              else scrollTargetRate s)"
    and "scrollCurrentVol (tick now s)
           = approach (scrollCurrentVol s) (scrollTargetVol (tick now s))
               (2.0 * min 0.05 ((now - lastRafAt s) / 1000))"
  using assms by (auto simp: tick_def Let_def)

lemma tick_audio:
  assumes "scrollAudio s \<noteq> None"
  shows "case scrollAudio (tick now s) of
           None \<Rightarrow> False
         | Some a' \<Rightarrow> volume a' = scrollCurrentVol (tick now s)
             \<and> playbackRate a' = scrollCurrentRate (tick now s)
             \<and> (220 < now - lastWheelAt s \<and> scrollCurrentVol (tick now s) < 0.01
                  \<longrightarrow> paused a' \<and> currentTime a' = 0)"
  using assms by (auto simp: tick_def Let_def audio_pause_def)

lemma tick_volume_range:
  assumes "scrollAudio s \<noteq> None" and "lastRafAt s \<le> now"
    and "0 \<le> scrollTargetVol s" and "0 \<le> scrollCurrentVol s"
  shows "0 \<le> scrollTargetVol (tick now s)"
    and "scrollTargetVol (tick now s) \<le> scrollTargetVol s"
    and "0 \<le> scrollCurrentVol (tick now s)"
    and "scrollCurrentVol (tick now s) \<le> max (scrollTargetVol s) (scrollCurrentVol s)"
proof -
  let ?dt = "min 0.05 ((now - lastRafAt s) / 1000)"
  have dt: "0 \<le> ?dt" using assms(2) by simp
  show t0: "0 \<le> scrollTargetVol (tick now s)"
    using assms(3) by (simp add: tick_fields(3) [OF assms(1)])
  show t1: "scrollTargetVol (tick now s) \<le> scrollTargetVol s"
    using assms(3) dt by (simp add: tick_fields(3) [OF assms(1)])
  have m: "0 \<le> 2.0 * ?dt" using dt by simp
  have cv: "scrollCurrentVol (tick now s)
      = approach (scrollCurrentVol s) (scrollTargetVol (tick now s)) (2.0 * ?dt)"
    by (rule tick_fields(5) [OF assms(1)])
  have "min (scrollCurrentVol s) (scrollTargetVol (tick now s)) \<le> scrollCurrentVol (tick now s)"
    unfolding cv using m by (rule approach_lower)
  with t0 assms(4) show "0 \<le> scrollCurrentVol (tick now s)"
    by (simp add: min_def split: if_splits)
  have "scrollCurrentVol (tick now s) \<le> max (scrollCurrentVol s) (scrollTargetVol (tick now s))"
    unfolding cv using m by (rule approach_upper)
  with t1 show "scrollCurrentVol (tick now s) \<le> max (scrollTargetVol s) (scrollCurrentVol s)"
    by (simp add: max_def split: if_splits)
qed

text \<open>
  A tick more than 90 ms after the last wheel event, at least \<open>d\<close> seconds of (capped)
  frame time after the previous tick, takes \<open>0.9 * d\<close> off the larger of the two volumes,
  or brings both to 0.
\<close>

lemma tick_decay:
  assumes audio: "scrollAudio s \<noteq> None"
    and tv: "0 \<le> scrollTargetVol s" and cv: "0 \<le> scrollCurrentVol s"
    and d: "0 \<le> d" "d \<le> min 0.05 ((now - lastRafAt s) / 1000)"
    and idle: "90 < now - lastWheelAt s"
  shows "max (scrollTargetVol (tick now s)) (scrollCurrentVol (tick now s))
           \<le> max 0 (max (scrollTargetVol s) (scrollCurrentVol s) - 0.9 * d)"
proof -
  define dt where "dt = min 0.05 ((now - lastRafAt s) / 1000)"
  define V where "V = max (scrollTargetVol s) (scrollCurrentVol s)"
  let ?tv' = "scrollTargetVol (tick now s)"
  let ?cv' = "scrollCurrentVol (tick now s)"
  from d have ddt: "d \<le> dt" and dt: "0 \<le> dt"
    by (simp_all add: dt_def)
  have tvV: "scrollTargetVol s \<le> V" and cvV: "scrollCurrentVol s \<le> V"
    by (simp_all add: V_def)
  have tv': "?tv' = max 0 (scrollTargetVol s - 0.9 * dt)"
    using idle by (simp add: tick_fields(3) [OF audio] dt_def)
  have "scrollTargetVol s - 0.9 * dt \<le> V - 0.9 * d"
    using ddt tvV by linarith
  then have t: "?tv' \<le> max 0 (V - 0.9 * d)"
    unfolding tv' by (simp add: max_def)
  have m: "0 \<le> 2.0 * dt" using dt by simp
  have "?cv' = approach (scrollCurrentVol s) ?tv' (2.0 * dt)"
    by (simp add: tick_fields(5) [OF audio] dt_def)
  with approach_le_max [OF m] have c1: "?cv' \<le> max ?tv' (scrollCurrentVol s - 2.0 * dt)"
    by simp
  have "scrollCurrentVol s - 2.0 * dt \<le> V - 0.9 * d"
    using ddt cvV dt d(1) by linarith
  then have "scrollCurrentVol s - 2.0 * dt \<le> max 0 (V - 0.9 * d)"
    by (simp add: max_def)
  with t have "max ?tv' (scrollCurrentVol s - 2.0 * dt) \<le> max 0 (V - 0.9 * d)"
    by (rule max.boundedI)
  with c1 have "?cv' \<le> max 0 (V - 0.9 * d)"
    by (rule order_trans)
  with t have "max ?tv' ?cv' \<le> max 0 (V - 0.9 * d)"
    by (rule max.boundedI)
  then show ?thesis
    by (simp only: V_def)
qed

lemma idle_bound_nonneg:
  assumes "0 < gap" and "0 \<le> scrollTargetVol s"
  shows "0 \<le> idle_bound gap s"
proof -
  have "0 < 0.9 * min 0.05 (gap / 1000)" using assms(1) by simp
  moreover have "0 \<le> max (scrollTargetVol s) (scrollCurrentVol s)" using assms(2) by simp
  ultimately have "0 \<le> max (scrollTargetVol s) (scrollCurrentVol s) / (0.9 * min 0.05 (gap / 1000))"
    by (simp only: divide_nonneg_pos)
  then show ?thesis
    unfolding idle_bound_def by simp
qed

lemma tick_idle_bound:
  assumes gap: "0 < gap" and audio: "scrollAudio s \<noteq> None"
    and tv: "0 \<le> scrollTargetVol s" and cv: "0 \<le> scrollCurrentVol s"
    and later: "lastRafAt s + gap \<le> now"
  shows "idle_bound gap (tick now s) \<le> max 0 (idle_bound gap s - 1)"
proof -
  let ?d = "min 0.05 (gap / 1000)"
  let ?c = "0.9 * ?d"
  let ?k = "(lastWheelAt s + 220 - lastRafAt s) / gap"
  let ?k' = "(lastWheelAt s + 220 - now) / gap"
  let ?V = "max (scrollTargetVol s) (scrollCurrentVol s)"
  let ?V' = "max (scrollTargetVol (tick now s)) (scrollCurrentVol (tick now s))"
  have c: "0 < ?c" using gap by simp
  have d: "0 \<le> ?d" "?d \<le> min 0.05 ((now - lastRafAt s) / 1000)"
    using gap later by (simp_all add: min_def)
  have mono: "lastRafAt s \<le> now" using gap later by simp
  note range = tick_volume_range [OF audio mono tv cv]
  have V0: "0 \<le> ?V" using tv by simp
  have V'V: "?V' \<le> ?V" using range(2,4) by simp
  have ib': "idle_bound gap (tick now s) = max 0 ?k' + ?V' / ?c"
    by (simp add: idle_bound_def tick_fields(1,2) [OF audio])
  have ib: "idle_bound gap s = max 0 ?k + ?V / ?c"
    by (simp add: idle_bound_def)
  have "lastWheelAt s + 220 - now \<le> (lastWheelAt s + 220 - lastRafAt s) - gap"
    using later by simp
  then have "?k' \<le> ((lastWheelAt s + 220 - lastRafAt s) - gap) / gap"
    using gap by (simp only: divide_right_mono less_imp_le)
  also have "\<dots> = ?k - 1"
    using gap by (simp add: diff_divide_distrib)
  finally have k': "?k' \<le> ?k - 1" .
  show ?thesis
  proof (cases "1 \<le> ?k")
    case True
    from V'V c have "?V' / ?c \<le> ?V / ?c"
      by (simp only: divide_right_mono less_imp_le)
    moreover from k' True have "max 0 ?k' \<le> max 0 ?k - 1" by simp
    ultimately have "idle_bound gap (tick now s) \<le> idle_bound gap s - 1"
      unfolding ib ib' by linarith
    then show ?thesis by simp
  next
    case False
    with k' have k0: "max 0 ?k' = 0" by simp
    from False gap have "lastWheelAt s + 220 - lastRafAt s < gap"
      by (simp add: pos_divide_less_eq)
    with later have idle: "90 < now - lastWheelAt s" by simp
    from tick_decay [OF audio tv cv d idle] have "?V' \<le> max 0 (?V - ?c)" .
    with c have "?V' / ?c \<le> max 0 (?V - ?c) / ?c"
      by (simp only: divide_right_mono less_imp_le)
    also have "\<dots> = max 0 (?V / ?c - 1)"
      using c by (simp add: max_def diff_divide_distrib)
    also have "\<dots> \<le> max 0 (idle_bound gap s - 1)"
      unfolding ib by simp
    finally show ?thesis
      unfolding ib' k0 by simp
  qed
qed

text \<open>The tick that finds the bound below 1 ends silent and paused.\<close>

lemma tick_final:
  assumes gap: "0 < gap" and audio: "scrollAudio s \<noteq> None"
    and tv: "0 \<le> scrollTargetVol s" and cv: "0 \<le> scrollCurrentVol s"
    and later: "lastRafAt s + gap \<le> now"
    and small: "idle_bound gap s < 1"
  shows "scrollTargetVol (tick now s) = 0 \<and> scrollCurrentVol (tick now s) = 0
       \<and> (case scrollAudio (tick now s) of
             None \<Rightarrow> False
           | Some a \<Rightarrow> paused a \<and> currentTime a = 0 \<and> volume a = 0)"
proof -
  define d where "d = min 0.05 (gap / 1000)"
  define c where "c = 0.9 * d"
  define k where "k = (lastWheelAt s + 220 - lastRafAt s) / gap"
  define V where "V = max (scrollTargetVol s) (scrollCurrentVol s)"
  have c: "0 < c" using gap by (simp add: c_def d_def)
  have d: "0 \<le> d" "d \<le> min 0.05 ((now - lastRafAt s) / 1000)"
    using gap later by (simp_all add: d_def min_def)
  have mono: "lastRafAt s \<le> now" using gap later by simp
  have V0: "0 \<le> V" using tv by (simp add: V_def)
  have ib: "idle_bound gap s = max 0 k + V / c"
    by (simp add: idle_bound_def k_def V_def c_def d_def)
  from V0 c have Vc0: "0 \<le> V / c" by simp
  from small ib Vc0 have k1: "k < 1" by (simp add: max_def split: if_splits)
  from small ib have "V / c < 1" by (simp add: max_def split: if_splits)
  with c have Vc: "V < c" by (simp add: pos_divide_less_eq)
  from k1 gap have "lastWheelAt s + 220 - lastRafAt s < gap"
    by (simp add: k_def pos_divide_less_eq)
  with later have idle: "220 < now - lastWheelAt s" by simp
  then have idle90: "90 < now - lastWheelAt s" by simp
  from tick_decay [OF audio tv cv d idle90]
  have "max (scrollTargetVol (tick now s)) (scrollCurrentVol (tick now s)) \<le> max 0 (V - c)"
    by (simp only: V_def c_def)
  with Vc have le0: "scrollTargetVol (tick now s) \<le> 0" "scrollCurrentVol (tick now s) \<le> 0"
    by simp_all
  note range = tick_volume_range [OF audio mono tv cv]
  from le0 range(1,3) have z: "scrollTargetVol (tick now s) = 0" "scrollCurrentVol (tick now s) = 0"
    by simp_all
  from tick_audio [OF audio, of now] idle z
  have "case scrollAudio (tick now s) of
             None \<Rightarrow> False
           | Some a \<Rightarrow> paused a \<and> currentTime a = 0 \<and> volume a = 0"
    by (simp split: option.splits)
  with z show ?thesis by simp
qed

lemma ticks_silence:
  assumes gap: "0 < gap"
  shows "scrollAudio s \<noteq> None \<Longrightarrow> 0 \<le> scrollTargetVol s \<Longrightarrow> 0 \<le> scrollCurrentVol s \<Longrightarrow>
     spaced gap (lastRafAt s) ts \<Longrightarrow> ts \<noteq> [] \<Longrightarrow> idle_bound gap s < real (length ts) \<Longrightarrow>
     scrollTargetVol (ticks ts s) = 0 \<and> scrollCurrentVol (ticks ts s) = 0
       \<and> (case scrollAudio (ticks ts s) of
             None \<Rightarrow> False
           | Some a \<Rightarrow> paused a \<and> currentTime a = 0 \<and> volume a = 0)"
proof (induction ts arbitrary: s)
  case Nil
  then show ?case by simp
next
  case (Cons now rest)
  from Cons.prems(4) have later: "lastRafAt s + gap \<le> now" and sp: "spaced gap now rest"
    by simp_all
  have mono: "lastRafAt s \<le> now" using gap later by simp
  show ?case
  proof (cases "rest = []")
    case True
    with Cons.prems(6) have "idle_bound gap s < 1" by simp
    from tick_final [OF gap Cons.prems(1,2,3) later this] True show ?thesis
      by simp
  next
    case False
    let ?s' = "tick now s"
    note range = tick_volume_range [OF Cons.prems(1) mono Cons.prems(2,3)]
    have audio': "scrollAudio ?s' \<noteq> None"
      using Cons.prems(1) by (rule tick_scrollAudio)
    have sp': "spaced gap (lastRafAt ?s') rest"
      using sp by (simp add: tick_fields(1) [OF Cons.prems(1)])
    have step: "idle_bound gap ?s' \<le> max 0 (idle_bound gap s - 1)"
      using gap Cons.prems(1,2,3) later by (rule tick_idle_bound)
    have "idle_bound gap s - 1 < real (length rest)"
      using Cons.prems(6) by simp
    moreover have "0 < real (length rest)"
      using False by simp
    ultimately have "max 0 (idle_bound gap s - 1) < real (length rest)"
      by (simp only: max_less_iff_conj)
    with step have b': "idle_bound gap ?s' < real (length rest)"
      by (rule order_le_less_trans)
    from Cons.IH [OF audio' range(1) range(3) sp' False b'] show ?thesis
      by simp
  qed
qed

text \<open>
  Claim C7.  With the scroll clip present: a tick more than 90 ms after the last wheel
  event decays the targets (the target volume by \<open>0.9 * dt\<close> down to 0, the target rate
  towards 1); a tick more than 220 ms after the last wheel event that leaves the eased
  volume below 0.01 leaves the clip paused at position 0; and without further wheel
  events, ticks that are at least \<open>gap > 0\<close> milliseconds apart bring the eased volume
  and its target to exactly 0 and leave the clip paused at position 0 with volume 0, as
  soon as there are more of them than \<open>idle_bound gap s\<close>.
\<close>

theorem idle_ticks_silence:
  assumes audio: "scrollAudio s \<noteq> None"
  shows "(90 < now - lastWheelAt s \<longrightarrow>
            scrollTargetVol (tick now s)
              = max 0 (scrollTargetVol s - 0.9 * min 0.05 ((now - lastRafAt s) / 1000))
          \<and> scrollTargetRate (tick now s)
              = approach (scrollTargetRate s) 1 (1.2 * min 0.05 ((now - lastRafAt s) / 1000)))
       \<and> (220 < now - lastWheelAt s \<and> scrollCurrentVol (tick now s) < 0.01 \<longrightarrow>
            (case scrollAudio (tick now s) of
               None \<Rightarrow> False
             | Some a \<Rightarrow> paused a \<and> currentTime a = 0))
       \<and> (0 < gap \<and> 0 \<le> scrollTargetVol s \<and> 0 \<le> scrollCurrentVol s
            \<and> spaced gap (lastRafAt s) ts \<and> idle_bound gap s < real (length ts) \<longrightarrow>
            scrollTargetVol (ticks ts s) = 0 \<and> scrollCurrentVol (ticks ts s) = 0
          \<and> (case scrollAudio (ticks ts s) of
               None \<Rightarrow> False
             | Some a \<Rightarrow> paused a \<and> currentTime a = 0 \<and> volume a = 0))"
proof -
  have decay: "scrollTargetVol (tick now s)
              = max 0 (scrollTargetVol s - 0.9 * min 0.05 ((now - lastRafAt s) / 1000))
          \<and> scrollTargetRate (tick now s)
              = approach (scrollTargetRate s) 1 (1.2 * min 0.05 ((now - lastRafAt s) / 1000))"
    if "90 < now - lastWheelAt s"
    using that by (simp add: tick_fields(3,4) [OF audio])
  have pause: "case scrollAudio (tick now s) of
               None \<Rightarrow> False
             | Some a \<Rightarrow> paused a \<and> currentTime a = 0"
    if "220 < now - lastWheelAt s" and "scrollCurrentVol (tick now s) < 0.01"
    using tick_audio [OF audio, of now] that by (simp split: option.splits)
  have silent: "scrollTargetVol (ticks ts s) = 0 \<and> scrollCurrentVol (ticks ts s) = 0
          \<and> (case scrollAudio (ticks ts s) of
               None \<Rightarrow> False
             | Some a \<Rightarrow> paused a \<and> currentTime a = 0 \<and> volume a = 0)"
    if gap: "0 < gap" and tv: "0 \<le> scrollTargetVol s" and cv: "0 \<le> scrollCurrentVol s"
      and sp: "spaced gap (lastRafAt s) ts" and b: "idle_bound gap s < real (length ts)"
  proof -
    from idle_bound_nonneg [OF gap tv] b have "ts \<noteq> []" by auto
    from ticks_silence [OF gap audio tv cv sp this b] show ?thesis .
  qed
  from decay pause silent show ?thesis by blast
qed

lemma wheel_after_mount:
  "scrollAudio (onWheel 120 1000 True (mount 0)) \<noteq> None"
  "scrollTargetVol (onWheel 120 1000 True (mount 0)) = 0.12"
  "scrollCurrentVol (onWheel 120 1000 True (mount 0)) = 0"
  "lastRafAt (onWheel 120 1000 True (mount 0)) = 0"
  "lastWheelAt (onWheel 120 1000 True (mount 0)) = 1000"
  by (simp_all add: onWheel_def mount_def Let_def approach_def new_Audio_def)

theorem idle_ticks_silence_witness:
  "scrollCurrentVol (ticks [1000, 2000, 3000, 4000] (onWheel 120 1000 True (mount 0))) = 0
   \<and> scrollTargetVol (ticks [1000, 2000, 3000, 4000] (onWheel 120 1000 True (mount 0))) = 0
   \<and> (case scrollAudio (ticks [1000, 2000, 3000, 4000] (onWheel 120 1000 True (mount 0))) of
         None \<Rightarrow> False
       | Some a \<Rightarrow> paused a \<and> currentTime a = 0 \<and> volume a = 0)
   \<and> scrollTargetVol (tick 2000 (onWheel 120 1000 True (mount 0))) = 0.075"
proof -
  have b: "idle_bound 1000 (onWheel 120 1000 True (mount 0)) < real (length [1000, 2000, 3000, 4000 :: real])"
    by (simp add: idle_bound_def wheel_after_mount)
  have sp: "spaced 1000 (lastRafAt (onWheel 120 1000 True (mount 0))) [1000, 2000, 3000, 4000]"
    by (simp add: wheel_after_mount)
  from idle_ticks_silence [OF wheel_after_mount(1), of 2000 1000 "[1000, 2000, 3000, 4000]"] b sp
  show ?thesis
    by (simp add: wheel_after_mount)
qed

subsection \<open>The volume written to the clip\<close>

lemma onPointerDown_scroll_unchanged:
  "scrollTargetVol (onPointerDown button now rnd allowed s) = scrollTargetVol s"
  "scrollCurrentVol (onPointerDown button now rnd allowed s) = scrollCurrentVol s"
  "lastRafAt (onPointerDown button now rnd allowed s) = lastRafAt s"
  by (simp_all add: onPointerDown_def Let_def split: option.splits)

lemma onWheel_ranges:
  assumes "scroll_ranges s"
  shows "scroll_ranges (onWheel deltaY now allowed s)"
    and "lastRafAt (onWheel deltaY now allowed s) = lastRafAt s"
proof -
  from assms obtain a where a: "scrollAudio s = Some a" "0 \<le> volume a" "volume a \<le> 0.32"
    by (auto simp: scroll_ranges_def split: option.splits)
  then have au: "scrollAudio s \<noteq> None" by simp
  from assms have i: "0 \<le> wheelIntensity s" "wheelIntensity s \<le> 220"
    by (simp_all add: scroll_ranges_def)
  note i' = onWheel_intensity_range [OF i, of deltaY now allowed]
  define n where "n = min 1 (wheelIntensity (onWheel deltaY now allowed s) / 120)"
  have n: "0 \<le> n" "n \<le> 1" using i'(1) by (simp_all add: n_def)
  have tv: "scrollTargetVol (onWheel deltaY now allowed s) = n * 0.32"
    unfolding n_def by (rule onWheel_targets(2) [OF au])
  from n have tvr: "0 \<le> n * 0.32" "n * 0.32 \<le> 0.32" by simp_all
  have cv: "scrollCurrentVol (onWheel deltaY now allowed s) = scrollCurrentVol s"
    using a(1) by (simp add: onWheel_def Let_def)
  have vol: "case scrollAudio (onWheel deltaY now allowed s) of
               None \<Rightarrow> False | Some a' \<Rightarrow> volume a' = volume a"
    using a(1) by (simp add: onWheel_def Let_def audio_play_def)
  from assms i' tvr vol a(2,3) show "scroll_ranges (onWheel deltaY now allowed s)"
    unfolding scroll_ranges_def tv cv by (simp split: option.splits)
  show "lastRafAt (onWheel deltaY now allowed s) = lastRafAt s"
    by (simp add: onWheel_def Let_def split: option.splits)
qed

lemma tick_ranges:
  assumes "scroll_ranges s" and mono: "lastRafAt s \<le> now"
  shows "scroll_ranges (tick now s)"
proof -
  from assms(1) have au: "scrollAudio s \<noteq> None"
    by (auto simp: scroll_ranges_def split: option.splits)
  from assms(1) have tv: "0 \<le> scrollTargetVol s" "scrollTargetVol s \<le> 0.32"
    and cv: "0 \<le> scrollCurrentVol s" "scrollCurrentVol s \<le> 0.32"
    by (simp_all add: scroll_ranges_def)
  note r = tick_volume_range [OF au mono tv(1) cv(1)]
  from r(2) tv(2) have t2: "scrollTargetVol (tick now s) \<le> 0.32" by simp
  from tv(2) cv(2) have "max (scrollTargetVol s) (scrollCurrentVol s) \<le> 0.32" by simp
  with r(4) have c2: "scrollCurrentVol (tick now s) \<le> 0.32" by (rule order_trans)
  from tick_audio [OF au, of now]
  have vol: "case scrollAudio (tick now s) of
               None \<Rightarrow> False | Some a' \<Rightarrow> volume a' = scrollCurrentVol (tick now s)"
    by (simp split: option.splits)
  from assms(1) r(1,3) t2 c2 vol show ?thesis
    by (simp add: scroll_ranges_def tick_wheelIntensity split: option.splits)
qed

lemma sound_step_ranges:
  assumes "scroll_ranges s" and "lastRafAt s \<le> event_time e"
  shows "scroll_ranges (sound_step e s) \<and> lastRafAt (sound_step e s) \<le> event_time e"
proof (cases e)
  case (PointerDown button now rnd allowed)
  with assms show ?thesis
    by (simp add: scroll_ranges_def onPointerDown_scroll_unchanged onPointerDown_scroll_fields)
next
  case (Wheel deltaY now allowed)
  with assms onWheel_ranges [OF assms(1), of deltaY now allowed] show ?thesis
    by simp
next
  case (Tick now)
  with assms have "lastRafAt s \<le> now" by simp
  from tick_ranges [OF assms(1) this] Tick assms(1) show ?thesis
    by (simp add: tick_fields(1) scroll_ranges_def split: option.splits)
qed

lemma sound_run_ranges:
  "scroll_ranges s \<Longrightarrow> lastRafAt s \<le> t \<Longrightarrow> clock_ok t es \<Longrightarrow> scroll_ranges (sound_run es s)"
proof (induction es arbitrary: s t)
  case Nil
  then show ?case by simp
next
  case (Cons e es)
  from Cons.prems have le: "lastRafAt s \<le> event_time e" and ok: "clock_ok (event_time e) es"
    by simp_all
  from sound_step_ranges [OF Cons.prems(1) le]
  have "scroll_ranges (sound_step e s)" and "lastRafAt (sound_step e s) \<le> event_time e"
    by simp_all
  from Cons.IH [OF this ok] show ?case by simp
qed

text \<open>
  From \<open>mount\<close> on, with a clock that does not run backwards, the volume written to the
  scroll clip is within \<open>[0, 0.32]\<close>, inside the range \<open>[0, 1]\<close> the platform accepts.
\<close>

lemma sound_run_mount_ranges:
  "clock_ok t es \<Longrightarrow> scroll_ranges (sound_run es (mount t))"
proof -
  have "scroll_ranges (mount t)"
    by (simp add: scroll_ranges_def mount_def new_Audio_def)
  moreover have "lastRafAt (mount t) \<le> t"
    by (simp add: mount_def)
  moreover assume "clock_ok t es"
  ultimately show ?thesis
    by (rule sound_run_ranges)
qed

section \<open>The image tube: scroll loop and spin\<close>

text \<open>The scroll part of a frame, field by field.\<close>

lemma scrollFrame_fields:
  "scrollCurrent (scrollFrame height s)
     = (let eased = scrollCurrent s + (scrollTarget s - scrollCurrent s) * 0.12
        in if eased > height / 2 then eased - height
           else if eased < - height / 2 then eased + height else eased)"
  "scrollTarget (scrollFrame height s)
     = (let eased = scrollCurrent s + (scrollTarget s - scrollCurrent s) * 0.12
        in if eased > height / 2 then scrollTarget s - height
           else if eased < - height / 2 then scrollTarget s + height else scrollTarget s)"
  "spinVelocity (scrollFrame height s) = spinVelocity s"
  by (simp_all add: scrollFrame_def Let_def)

lemma useFrame_scroll:
  "scrollCurrent (ImageTube_useFrame v dt s) = scrollCurrent (scrollFrame (loopHeight v) s)"
  "scrollTarget (ImageTube_useFrame v dt s) = scrollTarget (scrollFrame (loopHeight v) s)"
  by (cases v; simp add: Let_def spinFrame_def)+

lemma useFrame_spin:
  "spinVelocity (ImageTube_useFrame v dt s) = max (- 2.0) (min 2.0 (spinVelocity s * spinDecay dt))"
  by (cases v) (simp_all add: Let_def spinFrame_def scrollFrame_fields(3))

lemma onWheel_scroll:
  "scrollCurrent (FiberScene_onWheel deltaY s) = scrollCurrent s"
  "scrollTarget (FiberScene_onWheel deltaY s) = scrollTarget s + deltaY * 0.002"
  by (simp_all add: FiberScene_onWheel_def)

lemma tube_hover_scroll:
  "scrollCurrent (tube_step v (TubeHover h) s) = scrollCurrent s"
  "scrollTarget (tube_step v (TubeHover h) s) = scrollTarget s"
  by (cases v; simp add: handleHover_def)+

text \<open>
  One event, seen unwrapped: the target with the shifts added back does not change in a
  frame, and the position with the shifts added back is the eased position.
\<close>

lemma frame_unwrapped:
  fixes s :: tube_state
  defines "eased \<equiv> scrollCurrent s + (scrollTarget s - scrollCurrent s) * 0.12"
  shows "scrollTarget (ImageTube_useFrame v dt s) + wrapShift v (TubeFrame dt) s = scrollTarget s"
    and "scrollCurrent (ImageTube_useFrame v dt s) + wrapShift v (TubeFrame dt) s = eased"
    and "scrollTarget (ImageTube_useFrame v dt s) - scrollCurrent (ImageTube_useFrame v dt s)
           = scrollTarget s - eased"
  by (simp_all add: eased_def useFrame_scroll scrollFrame_fields Let_def)

lemma tube_step_unwrapped:
  assumes le: "scrollCurrent s \<le> scrollTarget s"
    and up: "scrollTarget s \<le> scrollTarget (tube_step v e s) + wrapShift v e s"
  shows "scrollCurrent s \<le> scrollCurrent (tube_step v e s) + wrapShift v e s"
    and "scrollCurrent (tube_step v e s) \<le> scrollTarget (tube_step v e s)"
proof -
  have "scrollCurrent s \<le> scrollCurrent (tube_step v e s) + wrapShift v e s
      \<and> scrollCurrent (tube_step v e s) \<le> scrollTarget (tube_step v e s)"
  proof (cases e)
    case (TubeWheel deltaY)
    with le up show ?thesis by (simp add: onWheel_scroll)
  next
    case (TubeFrame dt)
    let ?eased = "scrollCurrent s + (scrollTarget s - scrollCurrent s) * 0.12"
    from le have e1: "scrollCurrent s \<le> ?eased" by simp
    from le have e2: "?eased \<le> scrollTarget s" by (simp add: field_simps)
    note f = frame_unwrapped [of v dt s]
    from f(2) e1 have a: "scrollCurrent s \<le> scrollCurrent (ImageTube_useFrame v dt s) + wrapShift v (TubeFrame dt) s"
      by simp
    from f(3) e2 have b: "scrollCurrent (ImageTube_useFrame v dt s) \<le> scrollTarget (ImageTube_useFrame v dt s)"
      by linarith
    from a b TubeFrame show ?thesis by simp
  next
    case (TubeHover h)
    with le show ?thesis by (simp add: tube_hover_scroll)
  qed
  then show "scrollCurrent s \<le> scrollCurrent (tube_step v e s) + wrapShift v e s"
    and "scrollCurrent (tube_step v e s) \<le> scrollTarget (tube_step v e s)"
    by simp_all
qed

lemma unwrapped_sorted:
  "scrollCurrent s \<le> scrollTarget s \<Longrightarrow>
   sorted ((scrollTarget s + removed) # map snd (unwrapped v removed s es)) \<Longrightarrow>
   sorted ((scrollCurrent s + removed) # map fst (unwrapped v removed s es))"
proof (induction es arbitrary: s removed)
  case Nil
  then show ?case by simp
next
  case (Cons e es)
  let ?s' = "tube_step v e s"
  let ?r' = "removed + wrapShift v e s"
  from Cons.prems(2) have up: "scrollTarget s + removed \<le> scrollTarget ?s' + ?r'"
    and rest: "sorted ((scrollTarget ?s' + ?r') # map snd (unwrapped v ?r' ?s' es))"
    by (simp_all add: Let_def)
  from up have up': "scrollTarget s \<le> scrollTarget ?s' + wrapShift v e s" by simp
  note step = tube_step_unwrapped [OF Cons.prems(1) up']
  from Cons.IH [OF step(2) rest]
  have tl: "sorted ((scrollCurrent ?s' + ?r') # map fst (unwrapped v ?r' ?s' es))" .
  from step(1) have hd: "scrollCurrent s + removed \<le> scrollCurrent ?s' + ?r'" by simp
  have eq: "map fst (unwrapped v removed s (e # es))
      = (scrollCurrent ?s' + ?r') # map fst (unwrapped v ?r' ?s' es)"
    by (simp add: Let_def)
  from hd tl show ?case
    unfolding eq by (simp only: sorted2 simp_thms)
qed

lemma loopHeight_pos: "0 < loopHeight v"
  by (cases v) (simp_all add: loopHeight_def ySpacing_def)

text \<open>
  Claim C3.  A frame first moves the position towards the target by the blend 0.12
  (\<open>eased\<close>).  If the eased position is above half the loop height, position and target
  both go down by one loop height; if it is below minus half the loop height, both go up
  by one loop height; otherwise neither is shifted.  In each case the difference of
  target and position is what it was before the shift.  Consequently, in a run of wheel
  events and frames that starts with the position not above the target (as it is
  initially, both 0), if the targets with the shifts added back never decrease, then the
  positions with the shifts added back never decrease.
\<close>

theorem scroll_loop_unwrapped_monotone:
  fixes s :: tube_state and v :: scene and dt removed :: real and es :: "tube_event list"
  defines "eased \<equiv> scrollCurrent s + (scrollTarget s - scrollCurrent s) * 0.12"
  defines "s' \<equiv> ImageTube_useFrame v dt s"
  shows "(loopHeight v / 2 < eased \<longrightarrow>
            scrollCurrent s' = eased - loopHeight v \<and> scrollTarget s' = scrollTarget s - loopHeight v)
       \<and> (eased < - loopHeight v / 2 \<longrightarrow>
            scrollCurrent s' = eased + loopHeight v \<and> scrollTarget s' = scrollTarget s + loopHeight v)
       \<and> (- loopHeight v / 2 \<le> eased \<and> eased \<le> loopHeight v / 2 \<longrightarrow>
            scrollCurrent s' = eased \<and> scrollTarget s' = scrollTarget s)
       \<and> scrollTarget s' - scrollCurrent s' = scrollTarget s - eased
       \<and> (scrollCurrent s \<le> scrollTarget s
            \<and> sorted ((scrollTarget s + removed) # map snd (unwrapped v removed s es)) \<longrightarrow>
            sorted ((scrollCurrent s + removed) # map fst (unwrapped v removed s es)))"
proof -
  note pos = loopHeight_pos [of v]
  have up: "scrollCurrent s' = eased - loopHeight v \<and> scrollTarget s' = scrollTarget s - loopHeight v"
    if "loopHeight v / 2 < eased"
    using that by (simp add: s'_def eased_def useFrame_scroll scrollFrame_fields Let_def)
  have down: "scrollCurrent s' = eased + loopHeight v \<and> scrollTarget s' = scrollTarget s + loopHeight v"
    if "eased < - loopHeight v / 2"
  proof -
    from that pos have "\<not> loopHeight v / 2 < eased" by simp
    with that show ?thesis
      by (simp add: s'_def eased_def useFrame_scroll scrollFrame_fields Let_def)
  qed
  have stay: "scrollCurrent s' = eased \<and> scrollTarget s' = scrollTarget s"
    if "- loopHeight v / 2 \<le> eased" and "eased \<le> loopHeight v / 2"
    using that by (simp add: s'_def eased_def useFrame_scroll scrollFrame_fields Let_def)
  have diff: "scrollTarget s' - scrollCurrent s' = scrollTarget s - eased"
    unfolding s'_def eased_def by (rule frame_unwrapped(3))
  from up down stay diff unwrapped_sorted [of s removed v es] show ?thesis
    by blast
qed

lemma wheel_then_frames:
  "unwrapped Scene_000 0 tube_init [TubeWheel 50000, TubeFrame (1 / 60), TubeFrame (1 / 60)]
     = [(0, 100), (12, 100), (22.56, 100)]"
  by (simp add: Let_def useFrame_scroll scrollFrame_fields onWheel_scroll loopHeight_def
        ySpacing_def tube_init_def del: ImageTube_useFrame.simps)

theorem scroll_loop_unwrapped_monotone_witness:
  "map fst (unwrapped Scene_000 0 tube_init [TubeWheel 50000, TubeFrame (1 / 60), TubeFrame (1 / 60)])
     = [0, 12, 22.56]
   \<and> sorted (0 # map fst (unwrapped Scene_000 0 tube_init
                            [TubeWheel 50000, TubeFrame (1 / 60), TubeFrame (1 / 60)]))
   \<and> scrollCurrent (ImageTube_useFrame Scene_000 (1 / 60) (FiberScene_onWheel 50000 tube_init)) = 12 - 8.1
   \<and> scrollTarget (ImageTube_useFrame Scene_000 (1 / 60) (FiberScene_onWheel 50000 tube_init)) = 100 - 8.1"
proof -
  have a: "scrollCurrent tube_init = 0" "scrollTarget tube_init = 0"
    by (simp_all add: tube_init_def)
  have b: "scrollCurrent (FiberScene_onWheel 50000 tube_init) = 0"
    "scrollTarget (FiberScene_onWheel 50000 tube_init) = 100"
    by (simp_all add: onWheel_scroll a)
  have h: "loopHeight Scene_000 = 8.1"
    by (simp add: loopHeight_def ySpacing_def)
  from scroll_loop_unwrapped_monotone
         [of Scene_000 "FiberScene_onWheel 50000 tube_init" "1 / 60" 0 "[]"]
  have frame: "scrollCurrent (ImageTube_useFrame Scene_000 (1 / 60) (FiberScene_onWheel 50000 tube_init)) = 12 - 8.1
   \<and> scrollTarget (ImageTube_useFrame Scene_000 (1 / 60) (FiberScene_onWheel 50000 tube_init)) = 100 - 8.1"
    by (simp add: b h del: ImageTube_useFrame.simps)
  let ?es = "[TubeWheel 50000, TubeFrame (1 / 60), TubeFrame (1 / 60)]"
  have h1: "scrollCurrent tube_init \<le> scrollTarget tube_init"
    by (simp add: a)
  have h2: "sorted ((scrollTarget tube_init + 0) # map snd (unwrapped Scene_000 0 tube_init ?es))"
    unfolding wheel_then_frames by (simp add: a)
  from scroll_loop_unwrapped_monotone [of Scene_000 tube_init 0 0 ?es] h1 h2
  have "sorted ((scrollCurrent tube_init + 0) # map fst (unwrapped Scene_000 0 tube_init ?es))"
    by blast
  then have "sorted (0 # map fst (unwrapped Scene_000 0 tube_init ?es))"
    by (simp only: a add_0_left)
  moreover have "map fst (unwrapped Scene_000 0 tube_init ?es) = [0, 12, 22.56]"
    unfolding wheel_then_frames by simp
  ultimately show ?thesis
    using frame by blast
qed

lemma spinDecay_add: "spinDecay d1 * spinDecay d2 = spinDecay (d1 + d2)"
  by (simp add: spinDecay_def powr_add [symmetric] distrib_right)

lemma spinDecay_range:
  "0 < spinDecay dt" "0 \<le> dt \<Longrightarrow> spinDecay dt \<le> 1"
  by (simp_all add: spinDecay_def damping_def powr_le1)

lemma clamp_inside:
  fixes x :: real
  assumes "\<bar>x\<bar> \<le> 2" and "0 < k" and "k \<le> 1"
  shows "max (- 2.0) (min 2.0 (x * k)) = x * k"
proof -
  from assms have "\<bar>x * k\<bar> \<le> \<bar>x\<bar> * 1"
    unfolding abs_mult by (intro mult_left_mono) simp_all
  with assms(1) have "\<bar>x * k\<bar> \<le> 2" by simp
  then show ?thesis by (simp add: min_def max_def abs_le_iff)
qed

text \<open>
  Claim C4.  A frame multiplies the spin velocity by \<open>0.92\<close> to the power \<open>60 * dt\<close> and
  clamps it to \<open>[-2, 2]\<close>.  The decay factors of two frames multiply to the decay factor of
  one frame of the summed time, so a velocity decayed over \<open>d1\<close> and then \<open>d2\<close> is the
  velocity decayed over \<open>d1 + d2\<close>.  After every frame the spin velocity is within
  \<open>[-2, 2]\<close>.  (Starting within the band, where the clamp of the first frame is idle, two
  frames leave the spin velocity that one frame of the summed time leaves.)
\<close>

theorem spin_decay_and_clamp:
  "spinVelocity (ImageTube_useFrame v dt s)
     = max (- 2.0) (min 2.0 (spinVelocity s * spinDecay dt))
   \<and> spinDecay dt = 0.92 powr (60 * dt)
   \<and> spinDecay d1 * spinDecay d2 = spinDecay (d1 + d2)
   \<and> (x * spinDecay d1) * spinDecay d2 = x * spinDecay (d1 + d2)
   \<and> - 2.0 \<le> spinVelocity (ImageTube_useFrame v dt s)
   \<and> spinVelocity (ImageTube_useFrame v dt s) \<le> 2.0
   \<and> (\<bar>spinVelocity s\<bar> \<le> 2 \<and> 0 \<le> d1 \<longrightarrow>
        spinVelocity (ImageTube_useFrame v d2 (ImageTube_useFrame v d1 s))
          = spinVelocity (ImageTube_useFrame v (d1 + d2) s))"
proof -
  have frame: "spinVelocity (ImageTube_useFrame v dt s)
     = max (- 2.0) (min 2.0 (spinVelocity s * spinDecay dt))"
    by (rule useFrame_spin)
  have decay: "spinDecay dt = 0.92 powr (60 * dt)"
    by (simp add: spinDecay_def damping_def mult.commute)
  have prod: "(x * spinDecay d1) * spinDecay d2 = x * spinDecay (d1 + d2)"
    by (simp add: spinDecay_add mult.assoc)
  have lo: "- 2.0 \<le> spinVelocity (ImageTube_useFrame v dt s)"
    unfolding frame by simp
  have hi: "spinVelocity (ImageTube_useFrame v dt s) \<le> 2.0"
    unfolding frame by simp
  have two: "spinVelocity (ImageTube_useFrame v d2 (ImageTube_useFrame v d1 s))
          = spinVelocity (ImageTube_useFrame v (d1 + d2) s)"
    if band: "\<bar>spinVelocity s\<bar> \<le> 2" and d1: "0 \<le> d1"
  proof -
    have "spinVelocity (ImageTube_useFrame v d1 s) = spinVelocity s * spinDecay d1"
      unfolding useFrame_spin using band spinDecay_range(1) spinDecay_range(2) [OF d1]
      by (rule clamp_inside)
    then show ?thesis
      by (simp add: useFrame_spin spinDecay_add mult.assoc)
  qed
  from frame decay spinDecay_add prod lo hi two show ?thesis
    by blast
qed

theorem spin_decay_and_clamp_witness:
  "spinVelocity (ImageTube_useFrame Scene_001 (1 / 60)
       (ImageTube_useFrame Scene_001 (1 / 60) (FiberScene_onWheel 250 tube_init)))
     = spinVelocity (ImageTube_useFrame Scene_001 (1 / 60 + 1 / 60) (FiberScene_onWheel 250 tube_init))
   \<and> spinVelocity (ImageTube_useFrame Scene_001 (1 / 60) (FiberScene_onWheel 250 tube_init)) = 0.92
   \<and> spinVelocity (ImageTube_useFrame Scene_001 (1 / 60) (FiberScene_onWheel 2500 tube_init)) = 2"
proof -
  have w: "spinVelocity (FiberScene_onWheel 250 tube_init) = 1"
    "spinVelocity (FiberScene_onWheel 2500 tube_init) = 10"
    by (simp_all add: FiberScene_onWheel_def tube_init_def)
  have d: "spinDecay (1 / 60) = 0.92"
    by (simp add: spinDecay_def damping_def)
  from spin_decay_and_clamp [of Scene_001 "1 / 60" "FiberScene_onWheel 250 tube_init" "1 / 60" "1 / 60" 0]
    spin_decay_and_clamp [of Scene_001 "1 / 60" "FiberScene_onWheel 2500 tube_init" 0 0 0]
  show ?thesis
    by (simp add: w d del: ImageTube_useFrame.simps)
qed

section \<open>The focus point of the grid shader\<close>

lemma compress_range:
  fixes u :: real
  assumes "0 \<le> u" and "u \<le> 1"
  shows "min 1 (max 0 (0.5 + (u - 0.5) * 0.4)) = 0.5 + (u - 0.5) * 0.4"
    and "0.3 \<le> 0.5 + (u - 0.5) * 0.4" and "0.5 + (u - 0.5) * 0.4 \<le> 0.7"
proof -
  from assms show lo: "0.3 \<le> 0.5 + (u - 0.5) * 0.4" by (simp add: field_simps)
  from assms show hi: "0.5 + (u - 0.5) * 0.4 \<le> 0.7" by (simp add: field_simps)
  from assms have "0 \<le> 0.5 + (u - 0.5) * 0.4" by (simp add: field_simps)
  moreover from assms have "0.5 + (u - 0.5) * 0.4 \<le> 1" by (simp add: field_simps)
  ultimately show "min 1 (max 0 (0.5 + (u - 0.5) * 0.4)) = 0.5 + (u - 0.5) * 0.4"
    by (simp only: min_absorb2 max_absorb2)
qed

lemma onPointerMove_target:
  assumes "0 < rectWidth" and "0 < rectHeight"
  shows "targetCenterUv (onPointerMove rectLeft rectTop rectWidth rectHeight clientX clientY s)
           = (0.5 + (min 1 (max 0 ((clientX - rectLeft) / rectWidth)) - 0.5) * 0.4,
              0.5 + ((1 - min 1 (max 0 ((clientY - rectTop) / rectHeight))) - 0.5) * 0.4)"
proof -
  let ?u = "min 1 (max 0 ((clientX - rectLeft) / rectWidth))"
  let ?w = "1 - min 1 (max 0 ((clientY - rectTop) / rectHeight))"
  have u: "0 \<le> ?u" "?u \<le> 1" by simp_all
  have w: "0 \<le> ?w" "?w \<le> 1" by simp_all
  have "targetCenterUv (onPointerMove rectLeft rectTop rectWidth rectHeight clientX clientY s)
           = (min 1 (max 0 (0.5 + (?u - 0.5) * 0.4)), min 1 (max 0 (0.5 + (?w - 0.5) * 0.4)))"
    using assms by (simp add: onPointerMove_def Let_def)
  then show ?thesis
    by (simp only: compress_range(1) [OF u] compress_range(1) [OF w])
qed

lemma onPointerMove_in_square:
  assumes "in_focus_square (targetCenterUv s)"
  shows "in_focus_square (targetCenterUv (onPointerMove rectLeft rectTop rectWidth rectHeight clientX clientY s))"
proof (cases "0 < rectWidth \<and> 0 < rectHeight")
  case True
  let ?u = "min 1 (max 0 ((clientX - rectLeft) / rectWidth))"
  let ?w = "1 - min 1 (max 0 ((clientY - rectTop) / rectHeight))"
  have u: "0 \<le> ?u" "?u \<le> 1" by simp_all
  have w: "0 \<le> ?w" "?w \<le> 1" by simp_all
  from True have "targetCenterUv (onPointerMove rectLeft rectTop rectWidth rectHeight clientX clientY s)
           = (0.5 + (?u - 0.5) * 0.4, 0.5 + (?w - 0.5) * 0.4)"
    by (simp only: onPointerMove_target)
  with compress_range(2,3) [OF u] compress_range(2,3) [OF w] show ?thesis
    by (simp only: in_focus_square_def fst_conv snd_conv simp_thms)
next
  case False
  then have "onPointerMove rectLeft rectTop rectWidth rectHeight clientX clientY s = s"
    by (auto simp: onPointerMove_def)
  with assms show ?thesis by simp
qed

lemma onPointerMove_uCenter:
  "uCenter (onPointerMove rectLeft rectTop rectWidth rectHeight clientX clientY s) = uCenter s"
  by (simp add: onPointerMove_def Let_def)

lemma lerp_in_square:
  assumes "in_focus_square c" and "in_focus_square t"
  shows "in_focus_square (Vector2_lerp c t 0.08)"
proof -
  have blend: "0.3 \<le> x + (y - x) * 0.08 \<and> x + (y - x) * 0.08 \<le> 0.7"
    if "0.3 \<le> x" "x \<le> 0.7" "0.3 \<le> y" "y \<le> 0.7" for x y :: real
    using that by (simp add: field_simps)
  from assms blend [of "fst c" "fst t"] blend [of "snd c" "snd t"] show ?thesis
    by (simp only: in_focus_square_def Vector2_lerp_def fst_conv snd_conv simp_thms)
qed

lemma grid_step_in_square:
  assumes "in_focus_square (targetCenterUv s)" and "in_focus_square (uCenter s)"
  shows "in_focus_square (targetCenterUv (grid_step e s)) \<and> in_focus_square (uCenter (grid_step e s))"
proof (cases e)
  case (PointerMove rectLeft rectTop rectWidth rectHeight clientX clientY)
  with assms show ?thesis
    by (simp add: onPointerMove_in_square onPointerMove_uCenter)
next
  case PointerLeave
  with assms show ?thesis
    by (simp add: onPointerLeave_def in_focus_square_def)
next
  case (GridFrame meshPresent elapsed)
  with assms lerp_in_square [OF assms(2,1)] show ?thesis
    by (simp add: GridPlane_useFrame_def)
qed

lemma grid_run_in_square:
  "in_focus_square (targetCenterUv s) \<Longrightarrow> in_focus_square (uCenter s) \<Longrightarrow>
     in_focus_square (targetCenterUv (grid_run es s)) \<and> in_focus_square (uCenter (grid_run es s))"
proof (induction es arbitrary: s)
  case Nil
  then show ?case by simp
next
  case (Cons e es)
  from grid_step_in_square [OF Cons.prems, of e] Cons.IH [of "grid_step e s"]
  show ?case by simp
qed

text \<open>
  Claim C10.  In every run of pointer events and frames from the initial state, the focus
  target and the \<open>uCenter\<close> uniform are within \<open>[0.3, 0.7] \<times> [0.3, 0.7]\<close>.  A pointer move
  over a rectangle of positive size sets the target to the clamped normalized position
  (with the vertical axis flipped) compressed about \<open>(0.5, 0.5)\<close> by the factor 0.4; a
  pointer leave sets it to \<open>(0.5, 0.5)\<close>; a frame moves \<open>uCenter\<close> towards the target by the
  blend 0.08.
\<close>

theorem focus_point_in_square:
  "in_focus_square (targetCenterUv (grid_run es grid_init))
   \<and> in_focus_square (uCenter (grid_run es grid_init))
   \<and> uCenter grid_init = (0.5, 0.5)
   \<and> (0 < rectWidth \<and> 0 < rectHeight \<longrightarrow>
        targetCenterUv (onPointerMove rectLeft rectTop rectWidth rectHeight clientX clientY s)
          = (0.5 + (min 1 (max 0 ((clientX - rectLeft) / rectWidth)) - 0.5) * 0.4,
             0.5 + ((1 - min 1 (max 0 ((clientY - rectTop) / rectHeight))) - 0.5) * 0.4))
   \<and> targetCenterUv (onPointerLeave s) = (0.5, 0.5)
   \<and> uCenter (GridPlane_useFrame True elapsed s)
        = (fst (uCenter s) + (fst (targetCenterUv s) - fst (uCenter s)) * 0.08,
           snd (uCenter s) + (snd (targetCenterUv s) - snd (uCenter s)) * 0.08)"
proof -
  have init: "in_focus_square (targetCenterUv grid_init)" "in_focus_square (uCenter grid_init)"
    by (simp_all add: grid_init_def in_focus_square_def)
  note run = grid_run_in_square [OF init, of es]
  have c0: "uCenter grid_init = (0.5, 0.5)"
    by (simp add: grid_init_def)
  have leave: "targetCenterUv (onPointerLeave s) = (0.5, 0.5)"
    by (simp add: onPointerLeave_def)
  have frame: "uCenter (GridPlane_useFrame True elapsed s)
        = (fst (uCenter s) + (fst (targetCenterUv s) - fst (uCenter s)) * 0.08,
           snd (uCenter s) + (snd (targetCenterUv s) - snd (uCenter s)) * 0.08)"
    by (simp add: GridPlane_useFrame_def Vector2_lerp_def)
  from run c0 leave frame onPointerMove_target [of rectWidth rectHeight rectLeft rectTop clientX clientY s]
  show ?thesis by blast
qed

theorem focus_point_in_square_witness:
  "targetCenterUv (onPointerMove 0 0 800 600 800 0 grid_init) = (0.7, 0.7)
   \<and> targetCenterUv (onPointerMove 0 0 800 600 (- 5) 900 grid_init) = (0.3, 0.3)
   \<and> 0.3 \<le> fst (uCenter (grid_run [PointerMove 0 0 800 600 800 0, GridFrame True 1] grid_init))
   \<and> fst (uCenter (grid_run [PointerMove 0 0 800 600 800 0, GridFrame True 1] grid_init)) \<le> 0.7"
  using focus_point_in_square [of "[PointerMove 0 0 800 600 800 0, GridFrame True 1]" 800 600 0 0 800 0 grid_init]
    focus_point_in_square [of "[]" 800 600 0 0 "- 5" 900 grid_init]
  by (simp add: in_focus_square_def)

end
